theory Spec2Isabelle
  imports Main "HOL-Library.AList"
begin

section \<open>Python primitives used by genome.py\<close>

text \<open>
  The exceptions that the code of \<^verbatim>\<open>genome.py\<close> can raise. Every operation of the
  model returns a pair: the outcome (\<open>Inl\<close> an exception, \<open>Inr\<close> the returned value)
  and the object's state when control leaves the method, so that a mutation made
  before an exception is raised stays visible.
\<close>

datatype error = IndexError | KeyError | AttributeError | ZeroDivisionError | TypeError

text \<open>
  Python list indexing: an index \<open>i\<close> with \<open>0 \<le> i < n\<close> names element \<open>i\<close>, an index
  with \<open>-n \<le> i < 0\<close> names element \<open>n + i\<close>, any other index raises IndexError.
\<close>

definition py_norm :: "nat \<Rightarrow> int \<Rightarrow> nat option" where
  "py_norm n i =
     (if 0 \<le> i \<and> i < int n then Some (nat i)
      else if - int n \<le> i \<and> i < 0 then Some (nat (int n + i))
      else None)"

definition py_getitem :: "'a list \<Rightarrow> int \<Rightarrow> error + 'a" where
  "py_getitem xs i = (case py_norm (length xs) i of None \<Rightarrow> Inl IndexError | Some k \<Rightarrow> Inr (xs ! k))"

definition py_setitem :: "'a \<Rightarrow> int \<Rightarrow> 'a list \<Rightarrow> error + 'a list" where
  "py_setitem v i xs = (case py_norm (length xs) i of None \<Rightarrow> Inl IndexError | Some k \<Rightarrow> Inr (xs[k := v]))"

text \<open>
  The slice assignment \<^verbatim>\<open>xs[p:p] = ys\<close>: the bound is clipped into \<open>[0, n]\<close> (a
  negative one after adding \<open>n\<close>) and \<open>ys\<close> is inserted there; it never raises.
\<close>

definition py_slice_insert :: "'a list \<Rightarrow> int \<Rightarrow> 'a list \<Rightarrow> 'a list" where
  "py_slice_insert xs p ys =
     (let n = int (length xs);
          q = (if p < 0 then max 0 (p + n) else min p n)
      in take (nat q) xs @ ys @ drop (nat q) xs)"

text \<open>\<^verbatim>\<open>range(a, b)\<close> is the list \<open>[a..b - 1]\<close>.\<close>

definition py_range :: "int \<Rightarrow> int \<Rightarrow> int list" where
  "py_range a b = [a..b - 1]"

text \<open>
  A \<^verbatim>\<open>for n in ...: body\<close> loop whose body updates a sequence and may raise: the loop
  stops at the first exception and keeps the updates made so far.
\<close>

fun for_each :: "(int \<Rightarrow> 'a list \<Rightarrow> error + 'a list) \<Rightarrow> int list \<Rightarrow> 'a list \<Rightarrow> (error + unit) \<times> 'a list" where
  "for_each body [] g = (Inr (), g)"
| "for_each body (n # ns) g =
     (case body n g of Inl e \<Rightarrow> (Inl e, g) | Inr g' \<Rightarrow> for_each body ns g')"

section \<open>ListGenome\<close>

text \<open>
  \<^verbatim>\<open>self.genome\<close> is a list of pairs (symbol, id); \<^verbatim>\<open>self.active_TEs\<close> and
  \<^verbatim>\<open>self.inactive_TEs\<close> are dicts from an id to (start, length), modelled as association
  lists in insertion order (\<open>AList.update\<close> overwrites in place or appends, as a
  dict assignment does; \<open>AList.delete\<close> is \<^verbatim>\<open>pop\<close>); \<^verbatim>\<open>self.number_of_TEs\<close> is the counter.
\<close>

record ListGenome =
  genome :: "(char \<times> int) list"
  active_TEs :: "(int \<times> (int \<times> int)) list"
  inactive_TEs :: "(int \<times> (int \<times> int)) list"
  number_of_TEs :: int

definition lg_init :: "int \<Rightarrow> ListGenome" where
  "lg_init n = \<lparr>genome = replicate (nat n) (CHR ''-'', 0), active_TEs = [],
                inactive_TEs = [], number_of_TEs = 0\<rparr>"

definition lg_disable_te :: "int \<Rightarrow> ListGenome \<Rightarrow> (error + unit) \<times> ListGenome" where
  "lg_disable_te te st =
     (case map_of (active_TEs st) te of
        None \<Rightarrow> (Inl KeyError, st)
      | Some (start_pos_of_te, length_of_te) \<Rightarrow>
          (case for_each (py_setitem (CHR ''x'', te))
                  (py_range start_pos_of_te (start_pos_of_te + length_of_te)) (genome st) of
             (Inl e, g) \<Rightarrow> (Inl e, st\<lparr>genome := g\<rparr>)
           | (Inr u, g) \<Rightarrow>
               (Inr (),
                if te \<in> fst ` set (active_TEs st)
                then st\<lparr>genome := g,
                        inactive_TEs := AList.update te (start_pos_of_te, length_of_te) (inactive_TEs st),
                        active_TEs := AList.delete te (active_TEs st)\<rparr>
                else st\<lparr>genome := g\<rparr>)))"

text \<open>
  The last loop of \<^verbatim>\<open>insert_te\<close> visits every key of \<^verbatim>\<open>active_TEs\<close> once and rewrites
  its value in place: a map over the entries.
\<close>

definition shift_entry :: "int \<Rightarrow> int \<Rightarrow> int \<times> (int \<times> int) \<Rightarrow> int \<times> (int \<times> int)" where
  "shift_entry p len e =
     (if fst (snd e) > p then (fst e, (fst (snd e) + len, snd (snd e))) else e)"

definition lg_insert_te :: "int \<Rightarrow> int \<Rightarrow> ListGenome \<Rightarrow> (error + int) \<times> ListGenome" where
  "lg_insert_te p len st =
     (let st1 = st\<lparr>number_of_TEs := number_of_TEs st + 1\<rparr>;
          new_id = number_of_TEs st1;
          te = replicate (nat len) (CHR ''A'', new_id)
      in case py_getitem (genome st1) p of
           Inl e \<Rightarrow> (Inl e, st1)
         | Inr at_pos \<Rightarrow>
             (case (if fst at_pos = CHR ''A'' then lg_disable_te (snd at_pos) st1
                    else (Inr (), st1)) of
                (Inl e, st2) \<Rightarrow> (Inl e, st2)
              | (Inr u, st2) \<Rightarrow>
                  (let st3 = st2\<lparr>genome := py_slice_insert (genome st2) p te\<rparr>;
                       st4 = st3\<lparr>active_TEs := AList.update new_id (p, len) (active_TEs st3)\<rparr>;
                       st5 = st4\<lparr>active_TEs := map (shift_entry p len) (active_TEs st4)\<rparr>
                   in (Inr new_id, st5))))"

definition lg_copy_te :: "int \<Rightarrow> int \<Rightarrow> ListGenome \<Rightarrow> (error + int option) \<times> ListGenome" where
  "lg_copy_te te offset st =
     (case map_of (active_TEs st) te of
        None \<Rightarrow> (Inl KeyError, st)
      | Some (start_position_original, len) \<Rightarrow>
          if length (genome st) = 0 then (Inl ZeroDivisionError, st)
          else (case lg_insert_te ((start_position_original + offset) mod int (length (genome st))) len st of
                  (Inl e, st') \<Rightarrow> (Inl e, st')
                | (Inr id_new, st') \<Rightarrow> (Inr (Some id_new), st')))"

definition lg_active_tes :: "ListGenome \<Rightarrow> int list" where
  "lg_active_tes st = map fst (active_TEs st)"

definition lg_len :: "ListGenome \<Rightarrow> int" where
  "lg_len st = int (length (genome st))"

definition lg_str :: "ListGenome \<Rightarrow> string" where
  "lg_str st = map fst (genome st)"

section \<open>LinkedListGenome\<close>

text \<open>
  A \<^verbatim>\<open>Nucleotide\<close> has a symbol and an id (\<^verbatim>\<open>None\<close> for the initial ones). A \<^verbatim>\<open>TE\<close>
  has id, pos, length and status; the status strings \<^verbatim>\<open>'active'\<close> and \<^verbatim>\<open>'inactive'\<close>
  are the only two ever stored. The field \<^verbatim>\<open>seq\<close> of a TE is written once and never
  read after the splice, so the record leaves it out.
\<close>

record Nucleotide =
  symbol :: char
  nid :: "int option"

datatype status = active | inactive

record TE =
  te_id :: int
  te_pos :: int
  te_length :: int
  te_status :: status

text \<open>
  A \<^verbatim>\<open>DoublyLinkedListSequence\<close> is read only along its \<^verbatim>\<open>next\<close> pointers, from
  \<^verbatim>\<open>head.next\<close> until \<^verbatim>\<open>head\<close> comes back; each link owns its own element object. The
  model is the list of elements in that order; a link is the header or the position
  of a node in the chain.
\<close>

datatype link = Head | Link nat

fun walk_links :: "'a list \<Rightarrow> int \<Rightarrow> nat \<Rightarrow> error + nat" where
  "walk_links [] index k = Inl IndexError"
| "walk_links (x # xs) index k =
     (if index = 0 then Inr k else walk_links xs (index - 1) (Suc k))"

definition get_link_at_index :: "'a list \<Rightarrow> int \<Rightarrow> error + nat" where
  "get_link_at_index s index =
     (if index < 0 then Inl IndexError else walk_links s index 0)"

definition get_element_at_index :: "'a list \<Rightarrow> int \<Rightarrow> error + 'a" where
  "get_element_at_index s index =
     (case get_link_at_index s index of Inl e \<Rightarrow> Inl e | Inr k \<Rightarrow> Inr (s ! k))"

definition set_at_index :: "'a \<Rightarrow> int \<Rightarrow> 'a list \<Rightarrow> error + 'a list" where
  "set_at_index element index s =
     (case get_link_at_index s index of Inl e \<Rightarrow> Inl e | Inr k \<Rightarrow> Inr (s[k := element]))"

text \<open>\<^verbatim>\<open>get_element_at_index(n).symbol = 'x'\<close>: the element object is changed in place.\<close>

definition set_symbol_at_index :: "char \<Rightarrow> int \<Rightarrow> Nucleotide list \<Rightarrow> error + Nucleotide list" where
  "set_symbol_at_index c index s =
     (case get_link_at_index s index of
        Inl e \<Rightarrow> Inl e
      | Inr k \<Rightarrow> Inr (s[k := (s ! k)\<lparr>symbol := c\<rparr>]))"

text \<open>
  \<^verbatim>\<open>insert_list_after_link(link, begin, end)\<close> puts the chain from \<^verbatim>\<open>begin\<close> to
  \<^verbatim>\<open>end\<close> between \<^verbatim>\<open>link\<close> and its successor. For an empty chain \<^verbatim>\<open>end\<close> is
  \<^verbatim>\<open>seq.head.previous\<close>, which is \<^verbatim>\<open>None\<close> (the constructor sets \<^verbatim>\<open>head.prev\<close>, not
  \<^verbatim>\<open>head.previous\<close>), and the first assignment \<^verbatim>\<open>end.next = ...\<close> raises
  AttributeError.
\<close>

definition insert_list_after_link :: "'a list \<Rightarrow> link \<Rightarrow> 'a list \<Rightarrow> error + 'a list" where
  "insert_list_after_link s l chain =
     (if chain = [] then Inl AttributeError
      else case l of
             Head \<Rightarrow> Inr (chain @ s)
           | Link k \<Rightarrow> Inr (take (Suc k) s @ chain @ drop (Suc k) s))"

record LinkedListGenome =
  ll_genome :: "Nucleotide list"
  tes :: "TE list"

definition llg_init :: "int \<Rightarrow> LinkedListGenome" where
  "llg_init n = \<lparr>ll_genome = replicate (nat n) \<lparr>symbol = CHR ''-'', nid = None\<rparr>, tes = []\<rparr>"

text \<open>The collision branch of \<^verbatim>\<open>LinkedListGenome.insert_te\<close> (lines 357 to 363).\<close>

definition llg_collide :: "Nucleotide \<Rightarrow> LinkedListGenome \<Rightarrow> (error + unit) \<times> LinkedListGenome" where
  "llg_collide nucleotide st =
     (case nid nucleotide of
        None \<Rightarrow> (Inl TypeError, st)
      | Some id_old \<Rightarrow>
          (case py_norm (length (tes st)) (id_old - 1) of
             None \<Rightarrow> (Inl IndexError, st)
           | Some k \<Rightarrow>
               (let te_old = tes st ! k in
                case for_each (set_at_index \<lparr>symbol = CHR ''x'', nid = Some id_old\<rparr>)
                       (py_range (te_pos te_old) (te_pos te_old + te_length te_old)) (ll_genome st) of
                  (Inl e, g) \<Rightarrow> (Inl e, st\<lparr>ll_genome := g\<rparr>)
                | (Inr u, g) \<Rightarrow>
                    (Inr (), st\<lparr>ll_genome := g,
                                tes := (tes st)[k := te_old\<lparr>te_status := inactive\<rparr>]\<rparr>))))"

definition shift_te :: "int \<Rightarrow> int \<Rightarrow> TE \<Rightarrow> TE" where
  "shift_te p len te = (if te_pos te > p then te\<lparr>te_pos := te_pos te + len\<rparr> else te)"

definition llg_insert_te :: "int \<Rightarrow> int \<Rightarrow> LinkedListGenome \<Rightarrow> (error + int) \<times> LinkedListGenome" where
  "llg_insert_te p len st =
     (let new_id = int (length (tes st)) + 1;
          seq = replicate (nat len) \<lparr>symbol = CHR ''A'', nid = Some new_id\<rparr>;
          te = \<lparr>te_id = new_id, te_pos = p, te_length = len, te_status = active\<rparr>
      in case get_element_at_index (ll_genome st) p of
           Inl e \<Rightarrow> (Inl e, st)
         | Inr nucleotide \<Rightarrow>
             (case (if symbol nucleotide = CHR ''A'' then llg_collide nucleotide st
                    else (Inr (), st)) of
                (Inl e, st1) \<Rightarrow> (Inl e, st1)
              | (Inr u, st1) \<Rightarrow>
                  (case (if p \<noteq> 0
                         then (case get_link_at_index (ll_genome st1) (p - 1) of
                                 Inl e \<Rightarrow> Inl e | Inr k \<Rightarrow> Inr (Link k))
                         else Inr Head) of
                     Inl e \<Rightarrow> (Inl e, st1)
                   | Inr l \<Rightarrow>
                       (case insert_list_after_link (ll_genome st1) l seq of
                          Inl e \<Rightarrow> (Inl e, st1)
                        | Inr g \<Rightarrow>
                            (let st2 = st1\<lparr>ll_genome := g\<rparr>;
                                 st3 = st2\<lparr>tes := tes st2 @ [te]\<rparr>;
                                 st4 = st3\<lparr>tes := map (shift_te p len) (tes st3)\<rparr>
                             in (Inr new_id, st4))))))"

definition llg_copy_te :: "int \<Rightarrow> int \<Rightarrow> LinkedListGenome \<Rightarrow> (error + int option) \<times> LinkedListGenome" where
  "llg_copy_te te_arg offset st =
     (case py_getitem (tes st) (te_arg - 1) of
        Inl e \<Rightarrow> (Inl e, st)
      | Inr te \<Rightarrow>
          if te_status te = active
          then (if length (ll_genome st) = 0 then (Inl ZeroDivisionError, st)
                else (case llg_insert_te ((offset + te_pos te) mod int (length (ll_genome st)))
                             (te_length te) st of
                        (Inl e, st') \<Rightarrow> (Inl e, st')
                      | (Inr id_new, st') \<Rightarrow> (Inr (Some id_new), st')))
          else (Inr None, st))"

definition llg_disable_te :: "int \<Rightarrow> LinkedListGenome \<Rightarrow> (error + unit) \<times> LinkedListGenome" where
  "llg_disable_te te_arg st =
     (case py_norm (length (tes st)) (te_arg - 1) of
        None \<Rightarrow> (Inl IndexError, st)
      | Some k \<Rightarrow>
          (let te = tes st ! k in
           case for_each (set_symbol_at_index (CHR ''x''))
                  (py_range (te_pos te) (te_pos te + te_length te)) (ll_genome st) of
             (Inl e, g) \<Rightarrow> (Inl e, st\<lparr>ll_genome := g\<rparr>)
           | (Inr u, g) \<Rightarrow>
               (Inr (), st\<lparr>ll_genome := g, tes := (tes st)[k := te\<lparr>te_status := inactive\<rparr>]\<rparr>)))"

definition llg_active_tes :: "LinkedListGenome \<Rightarrow> int list" where
  "llg_active_tes st = map te_id (filter (\<lambda>te. te_status te = active) (tes st))"

definition llg_len :: "LinkedListGenome \<Rightarrow> int" where
  "llg_len st = int (length (ll_genome st))"

definition llg_str :: "LinkedListGenome \<Rightarrow> string" where
  "llg_str st = map symbol (ll_genome st)"

section \<open>The Genome interface\<close>

text \<open>
  A call of the interface and the value it returns, so that the two classes can be
  driven by the same sequence of calls.
\<close>

datatype call = Insert_te int int | Copy_te int int | Disable_te int | Active_tes | Len | Str

datatype retval = RInt int | RNone | RList "int list" | RStr string

definition ret_int :: "(error + int) \<times> 's \<Rightarrow> (error + retval) \<times> 's" where
  "ret_int r = (case r of (Inl e, s) \<Rightarrow> (Inl e, s) | (Inr i, s) \<Rightarrow> (Inr (RInt i), s))"

definition ret_opt :: "(error + int option) \<times> 's \<Rightarrow> (error + retval) \<times> 's" where
  "ret_opt r = (case r of (Inl e, s) \<Rightarrow> (Inl e, s)
                | (Inr None, s) \<Rightarrow> (Inr RNone, s)
                | (Inr (Some i), s) \<Rightarrow> (Inr (RInt i), s))"

definition ret_unit :: "(error + unit) \<times> 's \<Rightarrow> (error + retval) \<times> 's" where
  "ret_unit r = (case r of (Inl e, s) \<Rightarrow> (Inl e, s) | (Inr u, s) \<Rightarrow> (Inr RNone, s))"

fun lg_call :: "call \<Rightarrow> ListGenome \<Rightarrow> (error + retval) \<times> ListGenome" where
  "lg_call (Insert_te p len) st = ret_int (lg_insert_te p len st)"
| "lg_call (Copy_te te offset) st = ret_opt (lg_copy_te te offset st)"
| "lg_call (Disable_te te) st = ret_unit (lg_disable_te te st)"
| "lg_call Active_tes st = (Inr (RList (lg_active_tes st)), st)"
| "lg_call Len st = (Inr (RInt (lg_len st)), st)"
| "lg_call Str st = (Inr (RStr (lg_str st)), st)"

fun llg_call :: "call \<Rightarrow> LinkedListGenome \<Rightarrow> (error + retval) \<times> LinkedListGenome" where
  "llg_call (Insert_te p len) st = ret_int (llg_insert_te p len st)"
| "llg_call (Copy_te te offset) st = ret_opt (llg_copy_te te offset st)"
| "llg_call (Disable_te te) st = ret_unit (llg_disable_te te st)"
| "llg_call Active_tes st = (Inr (RList (llg_active_tes st)), st)"
| "llg_call Len st = (Inr (RInt (llg_len st)), st)"
| "llg_call Str st = (Inr (RStr (llg_str st)), st)"

text \<open>Running a sequence of calls: the values returned (or exceptions raised) and the final state.\<close>

fun lg_run :: "call list \<Rightarrow> ListGenome \<Rightarrow> (error + retval) list \<times> ListGenome" where
  "lg_run [] st = ([], st)"
| "lg_run (c # cs) st =
     (case lg_call c st of (r, st') \<Rightarrow> (case lg_run cs st' of (rs, st'') \<Rightarrow> (r # rs, st'')))"

fun llg_run :: "call list \<Rightarrow> LinkedListGenome \<Rightarrow> (error + retval) list \<times> LinkedListGenome" where
  "llg_run [] st = ([], st)"
| "llg_run (c # cs) st =
     (case llg_call c st of (r, st') \<Rightarrow> (case llg_run cs st' of (rs, st'') \<Rightarrow> (r # rs, st'')))"

text \<open>
  The preconditions of the interface: a position inside the genome and a positive
  length for \<^verbatim>\<open>insert_te\<close>, the id of a TE that was created for \<^verbatim>\<open>copy_te\<close> and
  \<^verbatim>\<open>disable_te\<close>. The specification also allows \<^verbatim>\<open>insert_te(0, length)\<close> on an empty
  genome: that call is not in \<open>lg_pre\<close> and \<open>llg_pre\<close>, it is added by \<open>lg_spec_pre\<close> and
  \<open>llg_spec_pre\<close> below.
\<close>

fun lg_pre :: "call \<Rightarrow> ListGenome \<Rightarrow> bool" where
  "lg_pre (Insert_te p len) st = (0 \<le> p \<and> p < int (length (genome st)) \<and> 1 \<le> len)"
| "lg_pre (Copy_te te offset) st = (te \<in> set (map fst (active_TEs st)) \<union> set (map fst (inactive_TEs st)))"
| "lg_pre (Disable_te te) st = (te \<in> set (map fst (active_TEs st)) \<union> set (map fst (inactive_TEs st)))"
| "lg_pre c st = True"

fun llg_pre :: "call \<Rightarrow> LinkedListGenome \<Rightarrow> bool" where
  "llg_pre (Insert_te p len) st = (0 \<le> p \<and> p < int (length (ll_genome st)) \<and> 1 \<le> len)"
| "llg_pre (Copy_te te offset) st = (1 \<le> te \<and> te \<le> int (length (tes st)))"
| "llg_pre (Disable_te te) st = (1 \<le> te \<and> te \<le> int (length (tes st)))"
| "llg_pre c st = True"

fun lg_valid :: "call list \<Rightarrow> ListGenome \<Rightarrow> bool" where
  "lg_valid [] st = True"
| "lg_valid (c # cs) st = (lg_pre c st \<and> lg_valid cs (snd (lg_call c st)))"

fun llg_valid :: "call list \<Rightarrow> LinkedListGenome \<Rightarrow> bool" where
  "llg_valid [] st = True"
| "llg_valid (c # cs) st = (llg_pre c st \<and> llg_valid cs (snd (llg_call c st)))"

section \<open>Invariants of LinkedListGenome\<close>

definition te_ok :: "nat \<Rightarrow> TE \<Rightarrow> bool" where
  "te_ok n te = (0 \<le> te_pos te \<and> 1 \<le> te_length te \<and> te_pos te + te_length te \<le> int n)"

definition nuc_ok :: "nat \<Rightarrow> Nucleotide \<Rightarrow> bool" where
  "nuc_ok m nuc =
     (symbol nuc = CHR ''A'' \<longrightarrow> (case nid nuc of None \<Rightarrow> False | Some i \<Rightarrow> 1 \<le> i \<and> i \<le> int m))"

definition llg_inv :: "LinkedListGenome \<Rightarrow> bool" where
  "llg_inv st =
     (list_all (te_ok (length (ll_genome st))) (tes st) \<and>
      list_all (nuc_ok (length (tes st))) (ll_genome st) \<and>
      map te_id (tes st) = map (\<lambda>k. int k + 1) [0..<length (tes st)])"

definition chain_inv :: "nat \<Rightarrow> nat \<Rightarrow> Nucleotide list \<Rightarrow> bool" where
  "chain_inv n m g = (length g = n \<and> list_all (nuc_ok m) g)"

text \<open>
  The first half of \<^verbatim>\<open>LinkedListGenome.insert_te\<close>, up to the collision rule, as a
  derived function; \<open>llg_insert_te_split\<close> below shows how the method factors through it.
\<close>

definition llg_collision_step :: "int \<Rightarrow> LinkedListGenome \<Rightarrow> (error + unit) \<times> LinkedListGenome" where
  "llg_collision_step p st =
     (case get_element_at_index (ll_genome st) p of
        Inl e \<Rightarrow> (Inl e, st)
      | Inr nucleotide \<Rightarrow>
          if symbol nucleotide = CHR ''A'' then llg_collide nucleotide st else (Inr (), st))"

definition llg_splice :: "int \<Rightarrow> int \<Rightarrow> LinkedListGenome \<Rightarrow> LinkedListGenome" where
  "llg_splice p len st1 =
     st1\<lparr>ll_genome := take (nat p) (ll_genome st1)
                        @ replicate (nat len) \<lparr>symbol = CHR ''A'', nid = Some (int (length (tes st1)) + 1)\<rparr>
                        @ drop (nat p) (ll_genome st1),
         tes := map (shift_te p len)
                  (tes st1 @ [\<lparr>te_id = int (length (tes st1)) + 1, te_pos = p, te_length = len,
                               te_status = active\<rparr>])\<rparr>"

text \<open>The states a LinkedListGenome can be in: any sequence of calls, with any arguments.\<close>

inductive llg_reachable :: "LinkedListGenome \<Rightarrow> bool" where
  llg_reach_init: "llg_reachable (llg_init n)"
| llg_reach_call: "llg_reachable st \<Longrightarrow> llg_reachable (snd (llg_call c st))"

definition llg_example :: LinkedListGenome where
  "llg_example = \<lparr>ll_genome = [\<lparr>symbol = CHR ''-'', nid = None\<rparr>, \<lparr>symbol = CHR ''A'', nid = Some 1\<rparr>, \<lparr>symbol = CHR ''-'', nid = None\<rparr>],
     tes = [\<lparr>te_id = 1, te_pos = 1, te_length = 1, te_status = active\<rparr>]\<rparr>"

section \<open>Invariants of ListGenome\<close>

definition lg_wf :: "(char \<times> int) list \<Rightarrow> (int \<rightharpoonup> int \<times> int) \<Rightarrow> int \<Rightarrow> bool" where
  "lg_wf g m c =
     ((\<forall>k s l. m k = Some (s, l) \<longrightarrow>
         k \<le> c \<and> 0 \<le> s \<and> 1 \<le> l \<and> s + l \<le> int (length g) \<and>
         (\<forall>i. s \<le> i \<and> i < s + l \<longrightarrow> g ! nat i = (CHR ''A'', k))) \<and>
      (\<forall>i < length g. fst (g ! i) = CHR ''A'' \<longrightarrow>
         (\<exists>s l. m (snd (g ! i)) = Some (s, l) \<and> s \<le> int i \<and> int i < s + l)))"

definition lg_inv :: "ListGenome \<Rightarrow> bool" where
  "lg_inv st =
     (distinct (map fst (active_TEs st)) \<and>
      lg_wf (genome st) (map_of (active_TEs st)) (number_of_TEs st))"

definition shift_val :: "int \<Rightarrow> int \<Rightarrow> int \<times> int \<Rightarrow> int \<times> int" where
  "shift_val p len r = (if fst r > p then (fst r + len, snd r) else r)"

text \<open>
  The two halves of \<^verbatim>\<open>ListGenome.insert_te\<close> as derived functions: the counter and
  the collision rule, then the splice and the update of the records
  (\<open>lg_insert_te_split\<close> shows that the method is their composition).
\<close>

definition lg_collision_step :: "int \<Rightarrow> ListGenome \<Rightarrow> (error + unit) \<times> ListGenome" where
  "lg_collision_step p st =
     (let st1 = st\<lparr>number_of_TEs := number_of_TEs st + 1\<rparr>
      in case py_getitem (genome st1) p of
           Inl e \<Rightarrow> (Inl e, st1)
         | Inr at_pos \<Rightarrow>
             if fst at_pos = CHR ''A'' then lg_disable_te (snd at_pos) st1 else (Inr (), st1))"

definition lg_splice :: "int \<Rightarrow> int \<Rightarrow> int \<Rightarrow> ListGenome \<Rightarrow> ListGenome" where
  "lg_splice new_id p len st2 =
     st2\<lparr>genome := py_slice_insert (genome st2) p (replicate (nat len) (CHR ''A'', new_id)),
         active_TEs := map (shift_entry p len) (AList.update new_id (p, len) (active_TEs st2))\<rparr>"

text \<open>
  The states a ListGenome can be in when every call meets its precondition.
\<close>

inductive lg_reachable :: "ListGenome \<Rightarrow> bool" where
  lg_reach_init: "lg_reachable (lg_init n)"
| lg_reach_call: "lg_reachable st \<Longrightarrow> lg_pre c st \<Longrightarrow> lg_reachable (snd (lg_call c st))"

section \<open>The lengths inserted by a sequence of calls\<close>

text \<open>
  The lengths \<open>l1..lk\<close> of the claim on lengths: an \<^verbatim>\<open>insert_te(pos, length)\<close> counts
  with \<open>length\<close>, a \<^verbatim>\<open>copy_te\<close> that returns an id counts with the length in the record
  of the TE it copies, nothing else counts.
\<close>

fun lg_inserted :: "call \<Rightarrow> ListGenome \<Rightarrow> int" where
  "lg_inserted (Insert_te p len) st = len"
| "lg_inserted (Copy_te te offset) st =
     (case fst (lg_copy_te te offset st) of
        Inr (Some id_new) \<Rightarrow> (case map_of (active_TEs st) te of Some (s, l) \<Rightarrow> l | None \<Rightarrow> 0)
      | _ \<Rightarrow> 0)"
| "lg_inserted c st = 0"

fun llg_inserted :: "call \<Rightarrow> LinkedListGenome \<Rightarrow> int" where
  "llg_inserted (Insert_te p len) st = len"
| "llg_inserted (Copy_te te offset) st =
     (case fst (llg_copy_te te offset st) of
        Inr (Some id_new) \<Rightarrow> (case py_getitem (tes st) (te - 1) of Inr t \<Rightarrow> te_length t | Inl e \<Rightarrow> 0)
      | _ \<Rightarrow> 0)"
| "llg_inserted c st = 0"

fun lg_inserted_sum :: "call list \<Rightarrow> ListGenome \<Rightarrow> int" where
  "lg_inserted_sum [] st = 0"
| "lg_inserted_sum (c # cs) st = lg_inserted c st + lg_inserted_sum cs (snd (lg_call c st))"

fun llg_inserted_sum :: "call list \<Rightarrow> LinkedListGenome \<Rightarrow> int" where
  "llg_inserted_sum [] st = 0"
| "llg_inserted_sum (c # cs) st = llg_inserted c st + llg_inserted_sum cs (snd (llg_call c st))"

definition lg_example :: ListGenome where
  "lg_example = \<lparr>genome = [(CHR ''-'', 0), (CHR ''A'', 1), (CHR ''-'', 0)],
                  active_TEs = [(1, (1, 1))], inactive_TEs = [], number_of_TEs = 1\<rparr>"

section \<open>The ids of ListGenome\<close>

text \<open>The ids in \<^verbatim>\<open>active_TEs\<close> are positive.\<close>

definition lg_ids_pos :: "ListGenome \<Rightarrow> bool" where
  "lg_ids_pos st = (0 \<le> number_of_TEs st \<and> list_all (\<lambda>e. 1 \<le> fst e) (active_TEs st))"

section \<open>No overlapping actives\<close>

text \<open>
  The property "no overlapping actives": the positions of the range \<open>[start, start + length)\<close>
  on a circle of \<open>n\<close> positions, and the ranges of any two active records with different
  ids sharing no position. The active records of a LinkedListGenome are those of the TEs
  whose status is active.
\<close>

definition circ_range :: "int \<Rightarrow> int \<times> int \<Rightarrow> int list" where
  "circ_range n r = map (\<lambda>i. (fst r + i) mod n) [0..snd r - 1]"

definition no_overlapping_actives :: "int \<Rightarrow> (int \<times> (int \<times> int)) list \<Rightarrow> bool" where
  "no_overlapping_actives n recs =
     (\<forall>a \<in> set recs. \<forall>b \<in> set recs. fst a \<noteq> fst b \<longrightarrow>
        (\<forall>x \<in> set (circ_range n (snd a)). x \<notin> set (circ_range n (snd b))))"

definition llg_active_records :: "LinkedListGenome \<Rightarrow> (int \<times> (int \<times> int)) list" where
  "llg_active_records st =
     map (\<lambda>te. (te_id te, (te_pos te, te_length te))) (filter (\<lambda>te. te_status te = active) (tes st))"

section \<open>The two classes side by side\<close>

text \<open>
  The two classes side by side. A symbol of ListGenome and a Nucleotide of
  LinkedListGenome agree when they show the same character and, for an A, carry the same
  id; two states agree when their genomes agree position by position, the same number of
  TEs has been created and the active records are the same, in the same order.
\<close>

definition same_symbol :: "char \<times> int \<Rightarrow> Nucleotide \<Rightarrow> bool" where
  "same_symbol e nuc = (fst e = symbol nuc \<and> (fst e = CHR ''A'' \<longrightarrow> nid nuc = Some (snd e)))"

definition same_state :: "ListGenome \<Rightarrow> LinkedListGenome \<Rightarrow> bool" where
  "same_state sl sll =
     (list_all2 same_symbol (genome sl) (ll_genome sll) \<and>
      number_of_TEs sl = int (length (tes sll)) \<and>
      active_TEs sl = llg_active_records sll)"

text \<open>
  The calls on which the two classes are compared: valid ones in which \<^verbatim>\<open>copy_te\<close> and
  \<^verbatim>\<open>disable_te\<close> name an active TE.
\<close>

fun lg_pre_active :: "call \<Rightarrow> ListGenome \<Rightarrow> bool" where
  "lg_pre_active (Insert_te p len) st = (0 \<le> p \<and> p < int (length (genome st)) \<and> 1 \<le> len)"
| "lg_pre_active (Copy_te te offset) st = (te \<in> set (map fst (active_TEs st)))"
| "lg_pre_active (Disable_te te) st = (te \<in> set (map fst (active_TEs st)))"
| "lg_pre_active c st = True"

fun lg_valid_active :: "call list \<Rightarrow> ListGenome \<Rightarrow> bool" where
  "lg_valid_active [] st = True"
| "lg_valid_active (c # cs) st = (lg_pre_active c st \<and> lg_valid_active cs (snd (lg_call c st)))"

section \<open>The preconditions of the specification\<close>

text \<open>
  The preconditions as the specification words them: for \<^verbatim>\<open>insert_te\<close> a position inside
  the genome or, on an empty genome, the position 0; for \<^verbatim>\<open>copy_te\<close> and \<^verbatim>\<open>disable_te\<close>
  the id of a TE that was created.
\<close>

fun lg_spec_pre :: "call \<Rightarrow> ListGenome \<Rightarrow> bool" where
  "lg_spec_pre (Insert_te p len) st =
     ((0 \<le> p \<and> p < int (length (genome st)) \<or> length (genome st) = 0 \<and> p = 0) \<and> 1 \<le> len)"
| "lg_spec_pre c st = lg_pre c st"

fun llg_spec_pre :: "call \<Rightarrow> LinkedListGenome \<Rightarrow> bool" where
  "llg_spec_pre (Insert_te p len) st =
     ((0 \<le> p \<and> p < int (length (ll_genome st)) \<or> length (ll_genome st) = 0 \<and> p = 0) \<and> 1 \<le> len)"
| "llg_spec_pre c st = llg_pre c st"

fun lg_spec_valid :: "call list \<Rightarrow> ListGenome \<Rightarrow> bool" where
  "lg_spec_valid [] st = True"
| "lg_spec_valid (c # cs) st = (lg_spec_pre c st \<and> lg_spec_valid cs (snd (lg_call c st)))"

fun llg_spec_valid :: "call list \<Rightarrow> LinkedListGenome \<Rightarrow> bool" where
  "llg_spec_valid [] st = True"
| "llg_spec_valid (c # cs) st = (llg_spec_pre c st \<and> llg_spec_valid cs (snd (llg_call c st)))"

text \<open>The states of a ListGenome reached by calls that meet the preconditions of the specification.\<close>

inductive lg_spec_reachable :: "ListGenome \<Rightarrow> bool" where
  lg_spec_reach_init: "lg_spec_reachable (lg_init n)"
| lg_spec_reach_call:
    "lg_spec_reachable st \<Longrightarrow> lg_spec_pre c st \<Longrightarrow> lg_spec_reachable (snd (lg_call c st))"

section \<open>Allocation histories\<close>

text \<open>
  The ids allocated so far: a state together with the set of ids that \<^verbatim>\<open>insert_te\<close> and
  \<^verbatim>\<open>copy_te\<close> have returned on the way to it, over any sequence of calls, valid or
  rejected.
\<close>

fun allocated :: "call \<Rightarrow> error + retval \<Rightarrow> int set" where
  "allocated (Insert_te p len) (Inr (RInt i)) = {i}"
| "allocated (Copy_te te offset) (Inr (RInt i)) = {i}"
| "allocated c r = {}"

inductive lg_history :: "ListGenome \<Rightarrow> int set \<Rightarrow> bool" where
  lg_hist_init: "lg_history (lg_init n) {}"
| lg_hist_call: "lg_history st A \<Longrightarrow>
                   lg_history (snd (lg_call c st)) (A \<union> allocated c (fst (lg_call c st)))"

inductive llg_history :: "LinkedListGenome \<Rightarrow> int set \<Rightarrow> bool" where
  llg_hist_init: "llg_history (llg_init n) {}"
| llg_hist_call: "llg_history st A \<Longrightarrow>
                    llg_history (snd (llg_call c st)) (A \<union> allocated c (fst (llg_call c st)))"

text \<open>
  A ListGenome after a rejected call: \<^verbatim>\<open>insert_te(5, 1)\<close> on a genome of length 2 raised
  IndexError, no id was returned, the counter is 1.
\<close>

definition lg_rejected_example :: ListGenome where
  "lg_rejected_example = snd (lg_call (Insert_te 5 1) (lg_init 2))"

section \<open>A LinkedListGenome with two TEs\<close>

text \<open>
  \<^verbatim>\<open>g = LinkedListGenome(3); g.insert_te(0, 1); g.insert_te(2, 1)\<close>: the genome \<^verbatim>\<open>A-A--\<close>
  with TE 1 at position 0 and TE 2, the latest, at position 2.
\<close>

definition llg_example2 :: LinkedListGenome where
  "llg_example2 = snd (llg_run [Insert_te 0 1, Insert_te 2 1] (llg_init 3))"

section \<open>Facts about the primitives\<close>

lemma py_norm_nonneg: "0 \<le> i \<Longrightarrow> i < int n \<Longrightarrow> py_norm n i = Some (nat i)"
  by (simp add: py_norm_def)

lemma py_norm_Some: "py_norm n i = Some k \<Longrightarrow> k < n"
  by (auto simp: py_norm_def split: if_splits)

lemma py_norm_high: "int n \<le> i \<Longrightarrow> py_norm n i = None"
  by (simp add: py_norm_def)

lemma walk_links_eq:
  "walk_links xs i k = (if 0 \<le> i \<and> i < int (length xs) then Inr (k + nat i) else Inl IndexError)"
proof (induction xs arbitrary: i k)
  case Nil
  then show ?case by simp
next
  case (Cons x xs)
  show ?case
  proof (cases "i = 0")
    case True
    then show ?thesis by simp
  next
    case False
    have "k + nat i = Suc k + nat (i - 1)" if "0 < i" using that by simp
    with False Cons.IH [of "i - 1" "Suc k"] show ?thesis by auto
  qed
qed

lemma get_link_at_index_eq:
  "get_link_at_index s i = (if 0 \<le> i \<and> i < int (length s) then Inr (nat i) else Inl IndexError)"
  by (simp add: get_link_at_index_def walk_links_eq)

lemma for_each_invariant:
  assumes "\<And>n g g'. body n g = Inr g' \<Longrightarrow> I g \<Longrightarrow> I g'"
    and "I g" and "for_each body ns g = (r, g')"
  shows "I g'"
  using assms(2,3)
proof (induction ns arbitrary: g)
  case Nil
  then show ?case by simp
next
  case (Cons n ns)
  show ?case
  proof (cases "body n g")
    case (Inl e)
    with Cons.prems show ?thesis by simp
  next
    case (Inr g1)
    with Cons.prems have "for_each body ns g1 = (r, g')" by simp
    moreover have "I g1" using assms(1) [OF Inr Cons.prems(1)] .
    ultimately show ?thesis using Cons.IH by blast
  qed
qed

lemma for_each_succeeds:
  assumes "\<And>n g g'. body n g = Inr g' \<Longrightarrow> I g \<Longrightarrow> I g'"
    and "\<And>n g. n \<in> set ns \<Longrightarrow> I g \<Longrightarrow> \<exists>g'. body n g = Inr g'"
    and "I g"
  shows "\<exists>g'. for_each body ns g = (Inr (), g')"
  using assms(2,3)
proof (induction ns arbitrary: g)
  case Nil
  then show ?case by simp
next
  case (Cons n ns)
  from Cons.prems(1) [of n g] Cons.prems(2) obtain g1 where g1: "body n g = Inr g1" by auto
  have "I g1" using assms(1) [OF g1 Cons.prems(2)] .
  moreover have "\<And>m h. m \<in> set ns \<Longrightarrow> I h \<Longrightarrow> \<exists>h'. body m h = Inr h'"
    using Cons.prems(1) by simp
  ultimately have "\<exists>g'. for_each body ns g1 = (Inr (), g')" using Cons.IH by blast
  with g1 show ?case by simp
qed

lemma set_py_range: "set (py_range a b) = {n. a \<le> n \<and> n < b}"
  by (auto simp: py_range_def)

section \<open>LinkedListGenome: the invariant holds in every state\<close>

lemma set_at_index_Inr:
  "set_at_index v n g = Inr g' \<Longrightarrow> g' = g[nat n := v] \<and> 0 \<le> n \<and> n < int (length g)"
  by (auto simp: set_at_index_def get_link_at_index_eq split: if_splits)

lemma set_symbol_at_index_Inr:
  "set_symbol_at_index c n g = Inr g' \<Longrightarrow>
     g' = g[nat n := (g ! nat n)\<lparr>symbol := c\<rparr>] \<and> 0 \<le> n \<and> n < int (length g)"
  by (auto simp: set_symbol_at_index_def get_link_at_index_eq split: if_splits)

lemma py_setitem_Inr:
  "py_setitem v n g = Inr g' \<Longrightarrow> \<exists>k < length g. g' = g[k := v]"
  by (auto simp: py_setitem_def split: option.splits dest: py_norm_Some)

lemma list_all_update:
  "list_all P xs \<Longrightarrow> P v \<Longrightarrow> list_all P (xs[k := v])"
  by (metis (full_types) insertE list_all_iff set_update_subset_insert subsetD)

lemma set_at_index_chain_inv:
  "set_at_index \<lparr>symbol = CHR ''x'', nid = i\<rparr> k g = Inr g' \<Longrightarrow> chain_inv n m g \<Longrightarrow> chain_inv n m g'"
  by (auto simp: chain_inv_def nuc_ok_def dest!: set_at_index_Inr intro!: list_all_update)

lemma set_symbol_at_index_chain_inv:
  "set_symbol_at_index (CHR ''x'') k g = Inr g' \<Longrightarrow> chain_inv n m g \<Longrightarrow> chain_inv n m g'"
  by (auto simp: chain_inv_def nuc_ok_def dest!: set_symbol_at_index_Inr intro!: list_all_update)

lemma te_ok_status [simp]: "te_ok n (te\<lparr>te_status := s\<rparr>) = te_ok n te"
  by (simp add: te_ok_def)

lemma map_te_id_update [simp]:
  "map te_id (ts[k := (ts ! k)\<lparr>te_status := s\<rparr>]) = map te_id ts"
  by (cases "k < length ts") (auto simp: nth_list_update intro!: nth_equalityI)

lemma llg_inv_status_update:
  assumes "llg_inv st" and "chain_inv (length (ll_genome st)) (length (tes st)) g"
  shows "llg_inv (st\<lparr>ll_genome := g\<rparr>)"
    and "k < length (tes st) \<Longrightarrow>
         llg_inv (st\<lparr>ll_genome := g, tes := (tes st)[k := (tes st ! k)\<lparr>te_status := inactive\<rparr>]\<rparr>)"
proof -
  show "llg_inv (st\<lparr>ll_genome := g\<rparr>)"
    using assms by (simp add: llg_inv_def chain_inv_def)
  assume k: "k < length (tes st)"
  have "te_ok (length (ll_genome st)) (tes st ! k)"
    using assms(1) k by (simp add: llg_inv_def list_all_length)
  then show "llg_inv (st\<lparr>ll_genome := g, tes := (tes st)[k := (tes st ! k)\<lparr>te_status := inactive\<rparr>]\<rparr>)"
    using assms by (simp add: llg_inv_def chain_inv_def list_all_update)
qed

lemma llg_inv_chain: "llg_inv st \<Longrightarrow> chain_inv (length (ll_genome st)) (length (tes st)) (ll_genome st)"
  by (simp add: llg_inv_def chain_inv_def)

lemma llg_collide_inv:
  assumes "llg_inv st" and "llg_collide nuc st = (r, st')"
  shows "llg_inv st'"
proof (cases "nid nuc")
  case None
  with assms show ?thesis by (simp add: llg_collide_def)
next
  case (Some i)
  show ?thesis
  proof (cases "py_norm (length (tes st)) (i - 1)")
    case None
    with Some assms show ?thesis by (simp add: llg_collide_def)
  next
    case k: (Some k)
    let ?loop = "for_each (set_at_index \<lparr>symbol = CHR ''x'', nid = Some i\<rparr>)
                   (py_range (te_pos (tes st ! k)) (te_pos (tes st ! k) + te_length (tes st ! k)))
                   (ll_genome st)"
    obtain r1 g where loop: "?loop = (r1, g)" by force
    have g: "chain_inv (length (ll_genome st)) (length (tes st)) g"
      using for_each_invariant [where I = "chain_inv (length (ll_genome st)) (length (tes st))", OF _ llg_inv_chain [OF assms(1)] loop]
        set_at_index_chain_inv by blast
    have klt: "k < length (tes st)" using k by (rule py_norm_Some)
    show ?thesis
    proof (cases r1)
      case (Inl e)
      with Some k loop assms(2) have "st' = st\<lparr>ll_genome := g\<rparr>"
        by (simp add: llg_collide_def Let_def)
      with llg_inv_status_update(1) [OF assms(1) g] show ?thesis by simp
    next
      case (Inr u)
      with Some k loop assms(2)
      have "st' = st\<lparr>ll_genome := g, tes := (tes st)[k := (tes st ! k)\<lparr>te_status := inactive\<rparr>]\<rparr>"
        by (simp add: llg_collide_def Let_def)
      with llg_inv_status_update(2) [OF assms(1) g klt] show ?thesis by simp
    qed
  qed
qed

lemma llg_collide_lengths:
  assumes "llg_collide nuc st = (r, st')"
  shows "length (ll_genome st') = length (ll_genome st) \<and> length (tes st') = length (tes st)"
proof -
  have *: "for_each (set_at_index v) ns g = (r1, g') \<Longrightarrow> length g' = length g" for v ns r1 and g g' :: "Nucleotide list"
    using for_each_invariant [where I = "\<lambda>h. length h = length g" and body = "set_at_index v"]
    by (metis length_list_update set_at_index_Inr)
  show ?thesis using assms
    by (auto simp: llg_collide_def Let_def split: option.splits prod.splits sum.splits dest: *)
qed

lemma llg_collision_step_lengths:
  "llg_collision_step p st = (r, st1) \<Longrightarrow>
     length (ll_genome st1) = length (ll_genome st) \<and> length (tes st1) = length (tes st)"
  by (auto simp: llg_collision_step_def split: sum.splits if_splits dest: llg_collide_lengths)

lemma llg_collision_step_range:
  "llg_collision_step p st = (Inr u, st1) \<Longrightarrow> 0 \<le> p \<and> p < int (length (ll_genome st))"
  by (auto simp: llg_collision_step_def get_element_at_index_def get_link_at_index_eq
      split: sum.splits if_splits)

lemma llg_collision_step_outside:
  "\<not> (0 \<le> p \<and> p < int (length (ll_genome st))) \<Longrightarrow> llg_collision_step p st = (Inl IndexError, st)"
  by (auto simp: llg_collision_step_def get_element_at_index_def get_link_at_index_eq)

lemma llg_collision_step_inv:
  "llg_inv st \<Longrightarrow> llg_collision_step p st = (r, st1) \<Longrightarrow> llg_inv st1"
  by (auto simp: llg_collision_step_def split: sum.splits if_splits dest: llg_collide_inv)

lemma llg_insert_te_split:
  "llg_insert_te p len st =
     (case llg_collision_step p st of
        (Inl e, st1) \<Rightarrow> (Inl e, st1)
      | (Inr u, st1) \<Rightarrow>
          if len \<le> 0 then (Inl AttributeError, st1) else (Inr (int (length (tes st)) + 1), llg_splice p len st1))"
proof (cases "llg_collision_step p st")
  case (Pair r st1)
  note lens = llg_collision_step_lengths [OF Pair]
  show ?thesis
  proof (cases r)
    case (Inl e)
    with Pair show ?thesis
      by (auto simp: llg_insert_te_def llg_collision_step_def Let_def split: sum.splits if_splits)
  next
    case (Inr u)
    with Pair have rng: "0 \<le> p" "p < int (length (ll_genome st))"
      using llg_collision_step_range by blast+
    obtain nuc where nuc: "get_element_at_index (ll_genome st) p = Inr nuc"
      using rng by (simp add: get_element_at_index_def get_link_at_index_eq)
    have mid: "(if symbol nuc = CHR ''A'' then llg_collide nuc st else (Inr (), st)) = (Inr u, st1)"
      using Pair Inr nuc by (simp add: llg_collision_step_def)
    have lnk: "(if p \<noteq> 0
                then (case get_link_at_index (ll_genome st1) (p - 1) of
                        Inl e \<Rightarrow> Inl e | Inr k \<Rightarrow> Inr (Link k))
                else Inr Head) = Inr (if p = 0 then Head else Link (nat (p - 1)))"
      using rng lens by (simp add: get_link_at_index_eq)
    have suc: "p \<noteq> 0 \<Longrightarrow> Suc (nat (p - 1)) = nat p" using rng by simp
    show ?thesis
      unfolding llg_insert_te_def Let_def nuc sum.case mid prod.case lnk Pair Inr
      using suc lens by (simp add: insert_list_after_link_def llg_splice_def)
  qed
qed

lemma te_ok_shift:
  "te_ok n te \<Longrightarrow> 1 \<le> len \<Longrightarrow> te_ok (n + nat len) (shift_te p len te)"
  by (auto simp: te_ok_def shift_te_def)

lemma nuc_ok_mono: "nuc_ok m nuc \<Longrightarrow> nuc_ok (Suc m) nuc"
  by (auto simp: nuc_ok_def split: option.splits)

lemma te_id_shift [simp]: "te_id (shift_te p len te) = te_id te"
  by (simp add: shift_te_def)

lemma llg_splice_inv:
  assumes inv: "llg_inv st1" and rng: "0 \<le> p" "p < int (length (ll_genome st1))" and len: "1 \<le> len"
  shows "llg_inv (llg_splice p len st1)"
proof -
  let ?n = "length (ll_genome st1)" and ?m = "length (tes st1)"
  have n': "length (ll_genome (llg_splice p len st1)) = ?n + nat len"
    using rng by (simp add: llg_splice_def)
  have m': "length (tes (llg_splice p len st1)) = Suc ?m"
    by (simp add: llg_splice_def)
  have tes_ok: "list_all (te_ok (?n + nat len)) (tes (llg_splice p len st1))"
  proof -
    have "list_all (te_ok (?n + nat len)) (map (shift_te p len) (tes st1))"
      using inv len by (auto simp: llg_inv_def list_all_iff intro: te_ok_shift)
    moreover have "te_ok (?n + nat len)
        (shift_te p len \<lparr>te_id = int ?m + 1, te_pos = p, te_length = len, te_status = active\<rparr>)"
      using rng len by (simp add: te_ok_def shift_te_def)
    ultimately show ?thesis by (simp add: llg_splice_def)
  qed
  have old: "list_all (nuc_ok (Suc ?m)) (ll_genome st1)"
    using inv by (auto simp: llg_inv_def list_all_iff intro: nuc_ok_mono)
  have nucs_ok: "list_all (nuc_ok (Suc ?m)) (ll_genome (llg_splice p len st1))"
  proof -
    have "list_all (nuc_ok (Suc ?m)) (take (nat p) (ll_genome st1))"
      using old by (auto simp: list_all_iff dest: in_set_takeD)
    moreover have "list_all (nuc_ok (Suc ?m)) (drop (nat p) (ll_genome st1))"
      using old by (auto simp: list_all_iff dest: in_set_dropD)
    moreover have "list_all (nuc_ok (Suc ?m))
        (replicate (nat len) \<lparr>symbol = CHR ''A'', nid = Some (int ?m + 1)\<rparr>)"
      by (simp add: list_all_iff nuc_ok_def)
    ultimately show ?thesis by (simp add: llg_splice_def)
  qed
  have ids: "map te_id (tes (llg_splice p len st1)) = map (\<lambda>k. int k + 1) [0..<Suc ?m]"
    using inv by (simp add: llg_splice_def llg_inv_def comp_def)
  show ?thesis
    unfolding llg_inv_def n' m' using tes_ok nucs_ok ids by simp
qed

lemma llg_insert_te_inv:
  assumes "llg_inv st"
  shows "llg_inv (snd (llg_insert_te p len st))"
proof (cases "llg_collision_step p st")
  case (Pair r st1)
  have inv1: "llg_inv st1" using llg_collision_step_inv [OF assms Pair] .
  show ?thesis
  proof (cases r)
    case (Inl e)
    with Pair inv1 show ?thesis by (simp add: llg_insert_te_split)
  next
    case (Inr u)
    with Pair have "0 \<le> p" "p < int (length (ll_genome st))"
      using llg_collision_step_range by blast+
    then have "0 \<le> p" "p < int (length (ll_genome st1))"
      using llg_collision_step_lengths [OF Pair] by simp_all
    then have "1 \<le> len \<Longrightarrow> llg_inv (llg_splice p len st1)"
      using llg_splice_inv [OF inv1] by blast
    with Pair Inr inv1 show ?thesis by (simp add: llg_insert_te_split)
  qed
qed

lemma llg_collide_succeeds:
  assumes inv: "llg_inv st" and nuc: "nuc \<in> set (ll_genome st)" and sym: "symbol nuc = CHR ''A''"
  shows "\<exists>st1. llg_collide nuc st = (Inr (), st1)"
proof -
  from inv nuc sym obtain i where i: "nid nuc = Some i" "1 \<le> i" "i \<le> int (length (tes st))"
    by (auto simp: llg_inv_def list_all_iff nuc_ok_def split: option.splits)
  then have k: "py_norm (length (tes st)) (i - 1) = Some (nat (i - 1))"
    by (simp add: py_norm_def)
  let ?te = "tes st ! nat (i - 1)"
  have "nat (i - 1) < length (tes st)" using i by simp
  then have ok: "te_ok (length (ll_genome st)) ?te"
    using inv by (simp add: llg_inv_def list_all_length)
  let ?I = "chain_inv (length (ll_genome st)) (length (tes st))"
  have "\<exists>g'. for_each (set_at_index \<lparr>symbol = CHR ''x'', nid = Some i\<rparr>)
               (py_range (te_pos ?te) (te_pos ?te + te_length ?te)) (ll_genome st) = (Inr (), g')"
  proof (rule for_each_succeeds [where I = ?I])
    show "?I (ll_genome st)" using inv by (rule llg_inv_chain)
  next
    fix n g g' assume "set_at_index \<lparr>symbol = CHR ''x'', nid = Some i\<rparr> n g = Inr g'" "?I g"
    then show "?I g'" by (rule set_at_index_chain_inv)
  next
    fix n g assume "n \<in> set (py_range (te_pos ?te) (te_pos ?te + te_length ?te))" "?I g"
    then show "\<exists>g'. set_at_index \<lparr>symbol = CHR ''x'', nid = Some i\<rparr> n g = Inr g'"
      using ok by (auto simp: set_py_range te_ok_def chain_inv_def set_at_index_def get_link_at_index_eq)
  qed
  then show ?thesis using i k by (auto simp: llg_collide_def Let_def)
qed

lemma llg_collision_step_succeeds:
  assumes "llg_inv st" and "0 \<le> p" and "p < int (length (ll_genome st))"
  shows "\<exists>st1. llg_collision_step p st = (Inr (), st1)"
proof -
  have el: "get_element_at_index (ll_genome st) p = Inr (ll_genome st ! nat p)"
    using assms(2,3) by (simp add: get_element_at_index_def get_link_at_index_eq)
  have "ll_genome st ! nat p \<in> set (ll_genome st)" using assms(2,3) by simp
  from llg_collide_succeeds [OF assms(1) this] show ?thesis
    by (auto simp: llg_collision_step_def el)
qed

lemma llg_insert_te_succeeds:
  assumes "llg_inv st" and "0 \<le> p" and "p < int (length (ll_genome st))" and "1 \<le> len"
  shows "\<exists>st1. llg_collision_step p st = (Inr (), st1) \<and>
           llg_insert_te p len st = (Inr (int (length (tes st)) + 1), llg_splice p len st1)"
proof -
  from llg_collision_step_succeeds [OF assms(1-3)] obtain st1
    where "llg_collision_step p st = (Inr (), st1)" ..
  with assms(4) show ?thesis by (simp add: llg_insert_te_split)
qed

lemma llg_splice_length:
  "0 \<le> p \<Longrightarrow> p < int (length (ll_genome st1)) \<Longrightarrow>
     length (ll_genome (llg_splice p len st1)) = length (ll_genome st1) + nat len"
  by (simp add: llg_splice_def)

lemma llg_insert_te_length_valid:
  assumes "llg_inv st" and "0 \<le> p" and "p < int (length (ll_genome st))" and "1 \<le> len"
  shows "int (length (ll_genome (snd (llg_insert_te p len st)))) = int (length (ll_genome st)) + len"
proof -
  from llg_insert_te_succeeds [OF assms] obtain st1 where
    st1: "llg_collision_step p st = (Inr (), st1)"
      "llg_insert_te p len st = (Inr (int (length (tes st)) + 1), llg_splice p len st1)" by blast
  have "length (ll_genome st1) = length (ll_genome st)"
    using llg_collision_step_lengths [OF st1(1)] by simp
  with st1(2) assms show ?thesis by (simp add: llg_splice_length)
qed

lemma llg_insert_te_length_mono:
  "length (ll_genome st) \<le> length (ll_genome (snd (llg_insert_te p len st)))"
proof (cases "llg_collision_step p st")
  case (Pair r st1)
  note lens = llg_collision_step_lengths [OF Pair]
  show ?thesis
  proof (cases r)
    case (Inl e)
    with Pair lens show ?thesis by (simp add: llg_insert_te_split)
  next
    case (Inr u)
    with Pair have "0 \<le> p" "p < int (length (ll_genome st1))"
      using llg_collision_step_range lens by fastforce+
    with Pair Inr lens show ?thesis by (simp add: llg_insert_te_split llg_splice_length)
  qed
qed

lemma llg_disable_te_inv:
  assumes "llg_inv st"
  shows "llg_inv (snd (llg_disable_te te st))"
proof (cases "py_norm (length (tes st)) (te - 1)")
  case None
  with assms show ?thesis by (simp add: llg_disable_te_def)
next
  case (Some k)
  let ?loop = "for_each (set_symbol_at_index (CHR ''x''))
                 (py_range (te_pos (tes st ! k)) (te_pos (tes st ! k) + te_length (tes st ! k)))
                 (ll_genome st)"
  obtain r1 g where loop: "?loop = (r1, g)" by force
  have g: "chain_inv (length (ll_genome st)) (length (tes st)) g"
    using for_each_invariant [where I = "chain_inv (length (ll_genome st)) (length (tes st))",
        OF _ llg_inv_chain [OF assms] loop] set_symbol_at_index_chain_inv by blast
  have klt: "k < length (tes st)" using Some by (rule py_norm_Some)
  show ?thesis
  proof (cases r1)
    case (Inl e)
    with Some loop have "snd (llg_disable_te te st) = st\<lparr>ll_genome := g\<rparr>"
      by (simp add: llg_disable_te_def Let_def)
    with llg_inv_status_update(1) [OF assms g] show ?thesis by simp
  next
    case (Inr u)
    with Some loop have "snd (llg_disable_te te st)
        = st\<lparr>ll_genome := g, tes := (tes st)[k := (tes st ! k)\<lparr>te_status := inactive\<rparr>]\<rparr>"
      by (simp add: llg_disable_te_def Let_def)
    with llg_inv_status_update(2) [OF assms g klt] show ?thesis by simp
  qed
qed

lemma llg_disable_te_length:
  "length (ll_genome (snd (llg_disable_te te st))) = length (ll_genome st)"
proof -
  have *: "for_each (set_symbol_at_index c) ns g = (r1, g') \<Longrightarrow> length g' = length g"
    for c ns r1 and g g' :: "Nucleotide list"
    using for_each_invariant [where I = "\<lambda>h. length h = length g" and body = "set_symbol_at_index c"]
    by (metis length_list_update set_symbol_at_index_Inr)
  show ?thesis
    by (auto simp: llg_disable_te_def Let_def split: option.splits prod.splits sum.splits dest: *)
qed

lemma llg_disable_te_succeeds:
  assumes inv: "llg_inv st" and k: "py_norm (length (tes st)) (te - 1) = Some k"
  shows "fst (llg_disable_te te st) = Inr ()"
proof -
  let ?te = "tes st ! k"
  have "k < length (tes st)" using k by (rule py_norm_Some)
  then have ok: "te_ok (length (ll_genome st)) ?te"
    using inv by (simp add: llg_inv_def list_all_length)
  let ?I = "chain_inv (length (ll_genome st)) (length (tes st))"
  have "\<exists>g'. for_each (set_symbol_at_index (CHR ''x''))
               (py_range (te_pos ?te) (te_pos ?te + te_length ?te)) (ll_genome st) = (Inr (), g')"
  proof (rule for_each_succeeds [where I = ?I])
    show "?I (ll_genome st)" using inv by (rule llg_inv_chain)
  next
    fix n g g' assume "set_symbol_at_index (CHR ''x'') n g = Inr g'" "?I g"
    then show "?I g'" by (rule set_symbol_at_index_chain_inv)
  next
    fix n g assume "n \<in> set (py_range (te_pos ?te) (te_pos ?te + te_length ?te))" "?I g"
    then show "\<exists>g'. set_symbol_at_index (CHR ''x'') n g = Inr g'"
      using ok by (auto simp: set_py_range te_ok_def chain_inv_def set_symbol_at_index_def get_link_at_index_eq)
  qed
  then show ?thesis using k by (auto simp: llg_disable_te_def Let_def)
qed

lemma llg_copy_te_inv:
  assumes "llg_inv st"
  shows "llg_inv (snd (llg_copy_te te offset st))"
proof -
  have "llg_inv st'" if "llg_insert_te p len st = (r, st')" for p len r st'
    using llg_insert_te_inv [OF assms, of p len] that by simp
  with assms show ?thesis
    by (auto simp: llg_copy_te_def split: sum.splits prod.splits option.splits)
qed

lemma llg_copy_te_length_mono:
  "length (ll_genome st) \<le> length (ll_genome (snd (llg_copy_te te offset st)))"
proof -
  have "length (ll_genome st) \<le> length (ll_genome st')" if "llg_insert_te p len st = (r, st')" for p len r st'
    using llg_insert_te_length_mono [of st p len] that by simp
  then show ?thesis
    by (auto simp: llg_copy_te_def split: sum.splits prod.splits option.splits)
qed

lemma snd_ret [simp]: "snd (ret_int r) = snd r" "snd (ret_opt q) = snd q" "snd (ret_unit u) = snd u"
  by (auto simp: ret_int_def ret_opt_def ret_unit_def split: prod.splits sum.splits option.splits)

lemma llg_call_inv: "llg_inv st \<Longrightarrow> llg_inv (snd (llg_call c st))"
  by (cases c) (simp_all add: llg_insert_te_inv llg_copy_te_inv llg_disable_te_inv)

lemma llg_call_length_mono: "length (ll_genome st) \<le> length (ll_genome (snd (llg_call c st)))"
  by (cases c) (simp_all add: llg_insert_te_length_mono llg_copy_te_length_mono llg_disable_te_length)

lemma llg_init_inv: "llg_inv (llg_init n)"
  by (simp add: llg_inv_def llg_init_def list_all_iff nuc_ok_def)

lemma llg_reachable_inv: "llg_reachable st \<Longrightarrow> llg_inv st"
  by (induction rule: llg_reachable.induct) (simp_all add: llg_init_inv llg_call_inv)

section \<open>LinkedListGenome: the id 0\<close>

lemma llg_inv_nonempty:
  assumes "llg_inv st" and "te \<in> set (tes st)"
  shows "0 < length (ll_genome st)"
  using assms by (auto simp: llg_inv_def list_all_iff te_ok_def)

lemma llg_copy_te_succeeds:
  assumes inv: "llg_inv st" and k: "py_norm (length (tes st)) (te - 1) = Some k"
  shows "\<exists>v. fst (llg_copy_te te offset st) = Inr v"
proof -
  let ?te = "tes st ! k"
  have klt: "k < length (tes st)" using k by (rule py_norm_Some)
  then have ok: "te_ok (length (ll_genome st)) ?te"
    using inv by (simp add: llg_inv_def list_all_length)
  have get: "py_getitem (tes st) (te - 1) = Inr ?te" using k by (simp add: py_getitem_def)
  have n: "0 < length (ll_genome st)" using llg_inv_nonempty [OF inv] klt by force
  let ?p = "(offset + te_pos ?te) mod int (length (ll_genome st))"
  have "0 \<le> ?p" "?p < int (length (ll_genome st))" using n by simp_all
  from llg_insert_te_succeeds [OF inv this] ok obtain st1 where
    "llg_insert_te ?p (te_length ?te) st = (Inr (int (length (tes st)) + 1), llg_splice ?p (te_length ?te) st1)"
    by (auto simp: te_ok_def)
  then show ?thesis using get n by (simp add: llg_copy_te_def)
qed

lemma snd_llg_run_Cons: "snd (llg_run (c # cs) st) = snd (llg_run cs (snd (llg_call c st)))"
  by (simp split: prod.splits)

lemma llg_reachable_run: "llg_reachable st \<Longrightarrow> llg_reachable (snd (llg_run cs st))"
proof (induction cs arbitrary: st)
  case Nil
  then show ?case by simp
next
  case (Cons c cs)
  have "llg_reachable (snd (llg_call c st))" using Cons.prems by (rule llg_reach_call)
  from Cons.IH [OF this] show ?case by (simp only: snd_llg_run_Cons)
qed

lemma llg_example_eq: "snd (llg_call (Insert_te 1 1) (llg_init 2)) = llg_example"
  by (simp add: llg_example_def llg_init_def llg_insert_te_split llg_collision_step_def llg_splice_def
      get_element_at_index_def get_link_at_index_eq shift_te_def numeral_2_eq_2)

lemma llg_example_reachable: "llg_reachable llg_example"
  using llg_reach_call [OF llg_reach_init, of "Insert_te 1 1" 2] by (simp only: llg_example_eq)

section \<open>ListGenome: the invariant holds in every state reached by valid calls\<close>

lemma py_setitem_nonneg:
  "0 \<le> n \<Longrightarrow> n < int (length g) \<Longrightarrow> py_setitem v n g = Inr (g[nat n := v])"
  by (simp add: py_setitem_def py_norm_def)

lemma for_each_py_setitem:
  assumes "\<forall>n \<in> set ns. 0 \<le> n \<and> n < int (length g)"
  shows "\<exists>g'. for_each (py_setitem v) ns g = (Inr (), g') \<and> length g' = length g \<and>
           (\<forall>i < length g. g' ! i = (if int i \<in> set ns then v else g ! i))"
  using assms
proof (induction ns arbitrary: g)
  case Nil
  then show ?case by simp
next
  case (Cons n ns)
  let ?g1 = "g[nat n := v]"
  have n: "0 \<le> n" "n < int (length g)" using Cons.prems by simp_all
  have step: "py_setitem v n g = Inr ?g1" using n by (rule py_setitem_nonneg)
  have "\<forall>m \<in> set ns. 0 \<le> m \<and> m < int (length ?g1)" using Cons.prems by simp
  from Cons.IH [OF this] obtain g' where g':
    "for_each (py_setitem v) ns ?g1 = (Inr (), g')" "length g' = length g"
    "\<forall>i < length g. g' ! i = (if int i \<in> set ns then v else ?g1 ! i)" by auto
  have "\<forall>i < length g. g' ! i = (if int i \<in> set (n # ns) then v else g ! i)"
  proof (intro allI impI)
    fix i assume i: "i < length g"
    show "g' ! i = (if int i \<in> set (n # ns) then v else g ! i)"
    proof (cases "int i = n")
      case True
      then have "nat n = i" by simp
      with g'(3) i True show ?thesis by simp
    next
      case False
      then have "nat n \<noteq> i" using n by auto
      with g'(3) i False show ?thesis by simp
    qed
  qed
  with g'(1,2) step show ?case by simp
qed

lemma lg_wf_mono: "lg_wf g m c \<Longrightarrow> c \<le> c' \<Longrightarrow> lg_wf g m c'"
  unfolding lg_wf_def by (meson order_trans)

text \<open>Disabling an active TE: the loop succeeds, the symbols of the TE become x, the rest stays.\<close>

lemma lg_disable_te_active:
  assumes wf: "lg_wf (genome st) (map_of (active_TEs st)) c"
    and te: "map_of (active_TEs st) te = Some (s, l)"
  shows "\<exists>g'. lg_disable_te te st =
                 (Inr (), st\<lparr>genome := g',
                              inactive_TEs := AList.update te (s, l) (inactive_TEs st),
                              active_TEs := AList.delete te (active_TEs st)\<rparr>)
             \<and> length g' = length (genome st)
             \<and> (\<forall>i < length (genome st).
                   g' ! i = (if s \<le> int i \<and> int i < s + l then (CHR ''x'', te) else genome st ! i))
             \<and> lg_wf g' (map_of (AList.delete te (active_TEs st))) c"
proof -
  let ?g = "genome st" and ?m = "map_of (active_TEs st)"
  from wf te have b: "0 \<le> s" "1 \<le> l" "s + l \<le> int (length ?g)"
    unfolding lg_wf_def by blast+
  have "\<forall>n \<in> set (py_range s (s + l)). 0 \<le> n \<and> n < int (length ?g)"
    using b by (auto simp: set_py_range)
  from for_each_py_setitem [OF this, of "(CHR ''x'', te)"] obtain g' where g':
    "for_each (py_setitem (CHR ''x'', te)) (py_range s (s + l)) ?g = (Inr (), g')"
    "length g' = length ?g"
    "\<forall>i < length ?g. g' ! i = (if s \<le> int i \<and> int i < s + l then (CHR ''x'', te) else ?g ! i)"
    by (auto simp: set_py_range)
  have mem: "te \<in> fst ` set (active_TEs st)"
    using te by (metis domI dom_map_of_conv_image_fst)
  have res: "lg_disable_te te st =
      (Inr (), st\<lparr>genome := g', inactive_TEs := AList.update te (s, l) (inactive_TEs st),
                   active_TEs := AList.delete te (active_TEs st)\<rparr>)"
    using te g'(1) mem by (simp add: lg_disable_te_def)
  let ?m' = "map_of (AList.delete te (active_TEs st))"
  have m': "?m' = ?m(te := None)" by (simp add: delete_conv')
  have "lg_wf g' ?m' c"
    unfolding lg_wf_def
  proof (intro conjI allI impI)
    fix k s' l' assume k: "?m' k = Some (s', l')"
    then have kne: "k \<noteq> te" and km: "?m k = Some (s', l')" by (auto simp: m' split: if_splits)
    from wf km have kb: "k \<le> c" "0 \<le> s'" "1 \<le> l'" "s' + l' \<le> int (length ?g)"
      and kA: "\<forall>i. s' \<le> i \<and> i < s' + l' \<longrightarrow> ?g ! nat i = (CHR ''A'', k)"
      unfolding lg_wf_def by blast+
    show "k \<le> c" "0 \<le> s'" "1 \<le> l'" by fact+
    show "s' + l' \<le> int (length g')" using kb g'(2) by simp
    fix i assume i: "s' \<le> i \<and> i < s' + l'"
    then have old: "?g ! nat i = (CHR ''A'', k)" using kA by blast
    have ilt: "nat i < length ?g" using i kb by linarith
    have "\<not> (s \<le> i \<and> i < s + l)"
    proof
      assume "s \<le> i \<and> i < s + l"
      with wf te have "?g ! nat i = (CHR ''A'', te)" unfolding lg_wf_def by blast
      with old kne show False by simp
    qed
    with g'(3) ilt i kb old show "g' ! nat i = (CHR ''A'', k)" by simp
  next
    fix i assume i: "i < length g'" and A: "fst (g' ! i) = CHR ''A''"
    from i g'(2) have ilt: "i < length ?g" by simp
    have out: "\<not> (s \<le> int i \<and> int i < s + l)"
      using g'(3) ilt A by auto
    from g'(3) ilt
    have "g' ! i = (if s \<le> int i \<and> int i < s + l then (CHR ''x'', te) else ?g ! i)" by blast
    with out have same: "g' ! i = ?g ! i" by auto
    from wf have sym: "\<forall>i < length ?g. fst (?g ! i) = CHR ''A'' \<longrightarrow>
         (\<exists>s l. ?m (snd (?g ! i)) = Some (s, l) \<and> s \<le> int i \<and> int i < s + l)"
      unfolding lg_wf_def by blast
    have A': "fst (?g ! i) = CHR ''A''" using A same by simp
    from sym [rule_format, OF ilt A'] obtain s' l' where r: "?m (snd (?g ! i)) = Some (s', l')"
        "s' \<le> int i" "int i < s' + l'"
      by blast
    have "snd (?g ! i) \<noteq> te" using r te out by auto
    with r same show "\<exists>s l. ?m' (snd (g' ! i)) = Some (s, l) \<and> s \<le> int i \<and> int i < s + l"
      by (auto simp: m')
  qed
  with res g'(2,3) show ?thesis by blast
qed

lemma map_of_shift_entry:
  "map_of (map (shift_entry p len) al) = map_option (shift_val p len) \<circ> map_of al"
proof -
  have "shift_entry p len = (\<lambda>(k, v). (k, shift_val p len v))"
    by (auto simp: shift_entry_def shift_val_def fun_eq_iff)
  then show ?thesis by (simp add: map_of_map)
qed

lemma fst_comp_shift_entry [simp]: "fst \<circ> shift_entry p len = fst"
  by (auto simp: fun_eq_iff shift_entry_def)

lemma map_fst_shift_entry [simp]: "map fst (map (shift_entry p len) al) = map fst al"
  by simp

lemma nth_splice_before:
  "P \<le> length g \<Longrightarrow> i < P \<Longrightarrow> (take P g @ replicate L v @ drop P g) ! i = g ! i"
  by (simp add: nth_append)

lemma nth_splice_new:
  assumes "P \<le> length g" and "P \<le> i" and "i < P + L"
  shows "(take P g @ replicate L v @ drop P g) ! i = v"
proof -
  have "i - P < L" "\<not> i < P" using assms by linarith+
  then show ?thesis using assms(1) by (simp add: nth_append min_def)
qed

lemma nth_splice_after:
  assumes "P \<le> length g" and "P + L \<le> i" and "i < length g + L"
  shows "(take P g @ replicate L v @ drop P g) ! i = g ! (i - L)"
proof -
  have "\<not> i - P < L" "\<not> i < P" "P + (i - P - L) = i - L" using assms by linarith+
  then show ?thesis using assms(1) by (simp add: nth_append min_def)
qed

lemma lg_splice_wf:
  assumes wf: "lg_wf g m c" and rng: "0 \<le> p" "p < int (length g)" and len: "1 \<le> len"
    and free: "fst (g ! nat p) \<noteq> CHR ''A''"
  shows "lg_wf (take (nat p) g @ replicate (nat len) (CHR ''A'', c + 1) @ drop (nat p) g)
               (map_option (shift_val p len) \<circ> (m(c + 1 \<mapsto> (p, len)))) (c + 1)"
    (is "lg_wf ?g3 ?m3 _")
proof -
  have P: "nat p \<le> length g" using rng by simp
  note before3 = nth_splice_before [OF P, of _ "nat len" "(CHR ''A'', c + 1)"]
  note new3 = nth_splice_new [OF P, of _ "nat len" "(CHR ''A'', c + 1)"]
  note after3 = nth_splice_after [OF P, of "nat len" _ "(CHR ''A'', c + 1)"]
  have len3: "int (length ?g3) = int (length g) + len" using rng len by simp
  have sep: "s + l \<le> p \<or> p < s" if "m k = Some (s, l)" for k s l
  proof (rule ccontr)
    assume "\<not> (s + l \<le> p \<or> p < s)"
    then have "s \<le> p \<and> p < s + l" by simp
    with wf that have "g ! nat p = (CHR ''A'', k)" unfolding lg_wf_def by blast
    with free show False by simp
  qed
  from wf have sym: "\<forall>i < length g. fst (g ! i) = CHR ''A'' \<longrightarrow>
         (\<exists>s l. m (snd (g ! i)) = Some (s, l) \<and> s \<le> int i \<and> int i < s + l)"
    unfolding lg_wf_def by blast
  have fresh: "m (c + 1) = None"
  proof (cases "m (c + 1)")
    case None then show ?thesis .
  next
    case (Some r)
    obtain s l where "r = (s, l)" by (cases r)
    with Some wf have "c + 1 \<le> c" unfolding lg_wf_def by blast
    then show ?thesis by simp
  qed
  show ?thesis unfolding lg_wf_def
  proof (intro conjI allI impI)
    fix k s' l' assume k: "?m3 k = Some (s', l')"
    have "k \<le> c + 1 \<and> 0 \<le> s' \<and> 1 \<le> l' \<and> s' + l' \<le> int (length ?g3) \<and>
          (\<forall>i. s' \<le> i \<and> i < s' + l' \<longrightarrow> ?g3 ! nat i = (CHR ''A'', k))"
    proof (cases "k = c + 1")
      case True
      with k have e: "s' = p" "l' = len" by (auto simp: shift_val_def)
      have "?g3 ! nat i = (CHR ''A'', c + 1)" if "p \<le> i" "i < p + len" for i
      proof -
        have "nat p \<le> nat i" "nat i < nat p + nat len" using that rng by linarith+
        then show ?thesis by (rule new3)
      qed
      with True e rng len len3 show ?thesis by auto
    next
      case False
      with k obtain s l where old: "m k = Some (s, l)" and sh: "(s', l') = shift_val p len (s, l)"
        by auto
      from wf old have b: "k \<le> c" "0 \<le> s" "1 \<le> l" "s + l \<le> int (length g)"
        and A: "\<forall>i. s \<le> i \<and> i < s + l \<longrightarrow> g ! nat i = (CHR ''A'', k)"
        unfolding lg_wf_def by blast+
      from sep [OF old] show ?thesis
      proof
        assume low: "s + l \<le> p"
        then have e: "s' = s" "l' = l" using sh b by (auto simp: shift_val_def)
        have "?g3 ! nat i = (CHR ''A'', k)" if "s \<le> i" "i < s + l" for i
        proof -
          have "nat i < nat p" using that low b by linarith
          then have "?g3 ! nat i = g ! nat i" by (rule before3)
          then show ?thesis using A that by simp
        qed
        with e b len3 len show ?thesis by auto
      next
        assume high: "p < s"
        then have e: "s' = s + len" "l' = l" using sh by (auto simp: shift_val_def)
        have "?g3 ! nat i = (CHR ''A'', k)" if "s + len \<le> i" "i < s + len + l" for i
        proof -
          have e: "nat i - nat len = nat (i - len)" using that high rng len b by linarith
          have "nat p + nat len \<le> nat i" "nat i < length g + nat len"
            using that high rng len b by linarith+
          then have "?g3 ! nat i = g ! (nat i - nat len)" by (rule after3)
          moreover have "g ! nat (i - len) = (CHR ''A'', k)" using A that by simp
          ultimately show ?thesis using e by simp
        qed
        with e b len3 len show ?thesis by auto
      qed
    qed
    then show "k \<le> c + 1" "0 \<le> s'" "1 \<le> l'" "s' + l' \<le> int (length ?g3)"
      "\<And>i. s' \<le> i \<and> i < s' + l' \<Longrightarrow> ?g3 ! nat i = (CHR ''A'', k)" by blast+
  next
    fix i assume i: "i < length ?g3" and A: "fst (?g3 ! i) = CHR ''A''"
    consider (before) "i < nat p" | (new) "nat p \<le> i" "i < nat p + nat len" | (after) "nat p + nat len \<le> i"
      by linarith
    then show "\<exists>s l. ?m3 (snd (?g3 ! i)) = Some (s, l) \<and> s \<le> int i \<and> int i < s + l"
    proof cases
      case before
      then have same: "?g3 ! i = g ! i" by (rule before3)
      have ilt: "i < length g" using before rng by linarith
      with wf A same obtain s l where r: "m (snd (g ! i)) = Some (s, l)" "s \<le> int i" "int i < s + l"
        unfolding lg_wf_def by (metis (no_types, lifting))
      have ne: "snd (g ! i) \<noteq> c + 1" using r(1) fresh by auto
      from sep [OF r(1)] r before have "\<not> p < s" by linarith
      then have "shift_val p len (s, l) = (s, l)" by (simp add: shift_val_def)
      with r ne same show ?thesis by auto
    next
      case new
      then have "?g3 ! i = (CHR ''A'', c + 1)" by (rule new3)
      moreover have "p \<le> int i" "int i < p + len" using new rng len by linarith+
      ultimately show ?thesis by (auto simp: shift_val_def)
    next
      case after
      have ilt: "i - nat len < length g" and il: "i < length g + nat len" using after i rng by simp_all
      from after il have same: "?g3 ! i = g ! (i - nat len)" by (rule after3)
      have A': "fst (g ! (i - nat len)) = CHR ''A''" using A same by simp
      from sym [rule_format, OF ilt A'] obtain s l where r: "m (snd (g ! (i - nat len))) = Some (s, l)"
          "s \<le> int (i - nat len)" "int (i - nat len) < s + l"
        by blast
      have ne: "snd (g ! (i - nat len)) \<noteq> c + 1" using r(1) fresh by auto
      have pos: "int (i - nat len) = int i - len" "p \<le> int i - len" using after len rng by linarith+
      from sep [OF r(1)] r pos have "p < s" by linarith
      then have "shift_val p len (s, l) = (s + len, l)" by (simp add: shift_val_def)
      with r ne same pos show ?thesis by auto
    qed
  qed
qed

lemma lg_insert_te_split:
  "lg_insert_te p len st =
     (case lg_collision_step p st of
        (Inl e, st2) \<Rightarrow> (Inl e, st2)
      | (Inr u, st2) \<Rightarrow> (Inr (number_of_TEs st + 1), lg_splice (number_of_TEs st + 1) p len st2))"
  by (simp add: lg_insert_te_def lg_collision_step_def lg_splice_def Let_def
      split: sum.splits prod.splits)

lemma py_getitem_nonneg:
  "0 \<le> p \<Longrightarrow> p < int (length g) \<Longrightarrow> py_getitem g p = Inr (g ! nat p)"
  by (simp add: py_getitem_def py_norm_def)

lemma lg_collision_step_valid:
  assumes inv: "lg_inv st" and rng: "0 \<le> p" "p < int (length (genome st))"
  shows "\<exists>st2. lg_collision_step p st = (Inr (), st2)
           \<and> length (genome st2) = length (genome st)
           \<and> number_of_TEs st2 = number_of_TEs st + 1
           \<and> distinct (map fst (active_TEs st2))
           \<and> lg_wf (genome st2) (map_of (active_TEs st2)) (number_of_TEs st)
           \<and> fst (genome st2 ! nat p) \<noteq> CHR ''A''
           \<and> (if fst (genome st ! nat p) = CHR ''A''
               then active_TEs st2 = AList.delete (snd (genome st ! nat p)) (active_TEs st)
                  \<and> (\<exists>s l. map_of (active_TEs st) (snd (genome st ! nat p)) = Some (s, l)
                        \<and> s \<le> p \<and> p < s + l
                        \<and> inactive_TEs st2 = AList.update (snd (genome st ! nat p)) (s, l) (inactive_TEs st)
                        \<and> (\<forall>i < length (genome st). genome st2 ! i =
                              (if s \<le> int i \<and> int i < s + l then (CHR ''x'', snd (genome st ! nat p))
                               else genome st ! i)))
               else st2 = st\<lparr>number_of_TEs := number_of_TEs st + 1\<rparr>)"
proof -
  let ?st1 = "st\<lparr>number_of_TEs := number_of_TEs st + 1\<rparr>"
  let ?g = "genome st" and ?c = "number_of_TEs st"
  from inv have d: "distinct (map fst (active_TEs st))"
    and wf: "lg_wf ?g (map_of (active_TEs st)) ?c" by (simp_all add: lg_inv_def)
  have get: "py_getitem (genome ?st1) p = Inr (?g ! nat p)" using rng by (simp add: py_getitem_nonneg)
  have plt: "nat p < length ?g" using rng by simp
  show ?thesis
  proof (cases "fst (?g ! nat p) = CHR ''A''")
    case False
    then have "lg_collision_step p st = (Inr (), ?st1)"
      using get by (simp add: lg_collision_step_def Let_def)
    with False d wf show ?thesis by simp
  next
    case True
    let ?k = "snd (?g ! nat p)"
    from wf plt True obtain s l where r: "map_of (active_TEs st) ?k = Some (s, l)"
        "s \<le> int (nat p)" "int (nat p) < s + l"
      unfolding lg_wf_def by blast
    have wf1: "lg_wf (genome ?st1) (map_of (active_TEs ?st1)) ?c" using wf by simp
    have r1: "map_of (active_TEs ?st1) ?k = Some (s, l)" using r(1) by simp
    from lg_disable_te_active [OF wf1 r1] obtain g' where g':
      "lg_disable_te ?k ?st1 =
         (Inr (), ?st1\<lparr>genome := g', inactive_TEs := AList.update ?k (s, l) (inactive_TEs ?st1),
                       active_TEs := AList.delete ?k (active_TEs ?st1)\<rparr>)"
      "length g' = length ?g"
      "\<forall>i < length ?g. g' ! i = (if s \<le> int i \<and> int i < s + l then (CHR ''x'', ?k) else ?g ! i)"
      "lg_wf g' (map_of (AList.delete ?k (active_TEs ?st1))) ?c"
      by auto
    let ?st2 = "?st1\<lparr>genome := g', inactive_TEs := AList.update ?k (s, l) (inactive_TEs ?st1),
                      active_TEs := AList.delete ?k (active_TEs ?st1)\<rparr>"
    have step: "lg_collision_step p st = (Inr (), ?st2)"
      using get True g'(1) by (simp add: lg_collision_step_def Let_def)
    have "g' ! nat p = (CHR ''x'', ?k)" using g'(3) plt r(2,3) by simp
    then have free: "fst (genome ?st2 ! nat p) \<noteq> CHR ''A''" by simp
    have rp: "s \<le> p" "p < s + l" using r(2,3) rng by simp_all
    have "distinct (map fst (active_TEs ?st2))" using d by (simp add: distinct_delete)
    with step g'(2,3,4) free True r(1) rp show ?thesis by auto
  qed
qed

lemma py_slice_insert_nonneg:
  "0 \<le> p \<Longrightarrow> p < int (length g) \<Longrightarrow> py_slice_insert g p ys = take (nat p) g @ ys @ drop (nat p) g"
  by (simp add: py_slice_insert_def Let_def min_def)

lemma lg_splice_inv:
  assumes d: "distinct (map fst (active_TEs st2))"
    and wf: "lg_wf (genome st2) (map_of (active_TEs st2)) c"
    and cnt: "number_of_TEs st2 = c + 1"
    and rng: "0 \<le> p" "p < int (length (genome st2))" and len: "1 \<le> len"
    and free: "fst (genome st2 ! nat p) \<noteq> CHR ''A''"
  shows "lg_inv (lg_splice (c + 1) p len st2)"
proof -
  have g: "genome (lg_splice (c + 1) p len st2)
         = take (nat p) (genome st2) @ replicate (nat len) (CHR ''A'', c + 1) @ drop (nat p) (genome st2)"
    using rng by (simp add: lg_splice_def py_slice_insert_nonneg)
  have m: "map_of (active_TEs (lg_splice (c + 1) p len st2))
         = map_option (shift_val p len) \<circ> ((map_of (active_TEs st2))(c + 1 \<mapsto> (p, len)))"
    by (simp add: lg_splice_def map_of_shift_entry update_conv')
  have n: "number_of_TEs (lg_splice (c + 1) p len st2) = c + 1"
    using cnt by (simp add: lg_splice_def)
  have "distinct (map fst (active_TEs (lg_splice (c + 1) p len st2)))"
    using d by (simp add: lg_splice_def distinct_update)
  moreover have "lg_wf (genome (lg_splice (c + 1) p len st2))
                  (map_of (active_TEs (lg_splice (c + 1) p len st2)))
                  (number_of_TEs (lg_splice (c + 1) p len st2))"
    unfolding g m n using wf rng len free by (rule lg_splice_wf)
  ultimately show ?thesis by (simp add: lg_inv_def)
qed

lemma lg_insert_te_valid:
  assumes inv: "lg_inv st" and rng: "0 \<le> p" "p < int (length (genome st))" and len: "1 \<le> len"
  shows "\<exists>st2. lg_collision_step p st = (Inr (), st2)
           \<and> lg_insert_te p len st = (Inr (number_of_TEs st + 1), lg_splice (number_of_TEs st + 1) p len st2)
           \<and> length (genome st2) = length (genome st)
           \<and> lg_inv (lg_splice (number_of_TEs st + 1) p len st2)"
proof -
  from lg_collision_step_valid [OF inv rng] obtain st2 where st2:
    "lg_collision_step p st = (Inr (), st2)"
    "length (genome st2) = length (genome st)"
    "number_of_TEs st2 = number_of_TEs st + 1"
    "distinct (map fst (active_TEs st2))"
    "lg_wf (genome st2) (map_of (active_TEs st2)) (number_of_TEs st)"
    "fst (genome st2 ! nat p) \<noteq> CHR ''A''" by blast
  have rng2: "0 \<le> p" "p < int (length (genome st2))" using rng st2(2) by simp_all
  have "lg_inv (lg_splice (number_of_TEs st + 1) p len st2)"
    using st2(4,5,3) rng2 len st2(6) by (rule lg_splice_inv)
  moreover have "lg_insert_te p len st
      = (Inr (number_of_TEs st + 1), lg_splice (number_of_TEs st + 1) p len st2)"
    using st2(1) by (simp add: lg_insert_te_split)
  ultimately show ?thesis using st2(1,2) by blast
qed

lemma for_each_py_setitem_length:
  "for_each (py_setitem v) ns g = (r, g') \<Longrightarrow> length g' = length g"
  using for_each_invariant [where I = "\<lambda>h. length h = length g" and body = "py_setitem v"]
  by (metis length_list_update py_setitem_Inr)

lemma lg_disable_te_length:
  "length (genome (snd (lg_disable_te te st))) = length (genome st)"
  by (auto simp: lg_disable_te_def split: option.splits prod.splits sum.splits
      dest: for_each_py_setitem_length)

lemma lg_collision_step_length:
  "length (genome (snd (lg_collision_step p st))) = length (genome st)"
  by (simp add: lg_collision_step_def Let_def lg_disable_te_length split: sum.splits)

lemma py_slice_insert_length: "length (py_slice_insert g p ys) = length g + length ys"
  by (simp add: py_slice_insert_def Let_def)

lemma lg_insert_te_length_mono:
  "length (genome st) \<le> length (genome (snd (lg_insert_te p len st)))"
proof (cases "lg_collision_step p st")
  case (Pair r st2)
  have "length (genome st2) = length (genome st)"
    using lg_collision_step_length [of p st] Pair by simp
  with Pair show ?thesis
    by (cases r) (simp_all add: lg_insert_te_split lg_splice_def py_slice_insert_length)
qed

lemma lg_copy_te_length_mono:
  "length (genome st) \<le> length (genome (snd (lg_copy_te te offset st)))"
proof -
  have "length (genome st) \<le> length (genome st')" if "lg_insert_te p len st = (r, st')" for p len r st'
    using lg_insert_te_length_mono [of st p len] that by simp
  then show ?thesis
    by (auto simp: lg_copy_te_def split: sum.splits prod.splits option.splits)
qed

lemma lg_call_length_mono: "length (genome st) \<le> length (genome (snd (lg_call c st)))"
  by (cases c) (simp_all add: lg_insert_te_length_mono lg_copy_te_length_mono lg_disable_te_length)

lemma lg_insert_te_length_valid:
  assumes "lg_inv st" and "0 \<le> p" and "p < int (length (genome st))" and "1 \<le> len"
  shows "int (length (genome (snd (lg_insert_te p len st)))) = int (length (genome st)) + len"
proof -
  from lg_insert_te_valid [OF assms] obtain st2 where
    "lg_insert_te p len st = (Inr (number_of_TEs st + 1), lg_splice (number_of_TEs st + 1) p len st2)"
    "length (genome st2) = length (genome st)" by blast
  then show ?thesis using assms(4) by (simp add: lg_splice_def py_slice_insert_length)
qed

lemma lg_insert_te_inv:
  assumes "lg_inv st" and "0 \<le> p" and "p < int (length (genome st))" and "1 \<le> len"
  shows "lg_inv (snd (lg_insert_te p len st))"
  using lg_insert_te_valid [OF assms] by auto

lemma lg_disable_te_inv:
  assumes "lg_inv st"
  shows "lg_inv (snd (lg_disable_te te st))"
proof (cases "map_of (active_TEs st) te")
  case None
  with assms show ?thesis by (simp add: lg_disable_te_def)
next
  case (Some r)
  obtain s l where r: "r = (s, l)" by (cases r)
  from assms have wf: "lg_wf (genome st) (map_of (active_TEs st)) (number_of_TEs st)"
    and d: "distinct (map fst (active_TEs st))" by (simp_all add: lg_inv_def)
  from lg_disable_te_active [OF wf Some [unfolded r]] d show ?thesis
    by (auto simp: lg_inv_def distinct_delete)
qed

lemma lg_inv_active_bounds:
  assumes "lg_inv st" and "map_of (active_TEs st) te = Some (s, l)"
  shows "0 \<le> s \<and> 1 \<le> l \<and> s + l \<le> int (length (genome st))"
  using assms unfolding lg_inv_def lg_wf_def by blast

lemma lg_copy_te_active:
  assumes inv: "lg_inv st" and te: "map_of (active_TEs st) te = Some (s, l)"
  shows "genome st \<noteq> []"
    and "0 \<le> (s + offset) mod int (length (genome st))"
    and "(s + offset) mod int (length (genome st)) < int (length (genome st))"
    and "1 \<le> l"
    and "lg_copy_te te offset st =
          (case lg_insert_te ((s + offset) mod int (length (genome st))) l st of
             (Inl e, st') \<Rightarrow> (Inl e, st') | (Inr id_new, st') \<Rightarrow> (Inr (Some id_new), st'))"
proof -
  from lg_inv_active_bounds [OF inv te] have b: "0 \<le> s" "1 \<le> l" "s + l \<le> int (length (genome st))"
    by simp_all
  then have n: "0 < int (length (genome st))" by linarith
  then show "genome st \<noteq> []" by auto
  show "0 \<le> (s + offset) mod int (length (genome st))" using n by simp
  show "(s + offset) mod int (length (genome st)) < int (length (genome st))" using n by simp
  show "1 \<le> l" by fact
  show "lg_copy_te te offset st =
          (case lg_insert_te ((s + offset) mod int (length (genome st))) l st of
             (Inl e, st') \<Rightarrow> (Inl e, st') | (Inr id_new, st') \<Rightarrow> (Inr (Some id_new), st'))"
    using te n by (simp add: lg_copy_te_def)
qed

lemma lg_copy_te_inv:
  assumes "lg_inv st"
  shows "lg_inv (snd (lg_copy_te te offset st))"
proof (cases "map_of (active_TEs st) te")
  case None
  with assms show ?thesis by (simp add: lg_copy_te_def)
next
  case (Some r)
  obtain s l where r: "r = (s, l)" by (cases r)
  note act = lg_copy_te_active [OF assms Some [unfolded r]]
  from lg_insert_te_inv [OF assms act(2) [of offset] act(3) [of offset] act(4)] show ?thesis
    unfolding act(5) by (auto split: prod.splits sum.splits)
qed

lemma lg_call_inv: "lg_inv st \<Longrightarrow> lg_pre c st \<Longrightarrow> lg_inv (snd (lg_call c st))"
  by (cases c) (simp_all add: lg_insert_te_inv lg_copy_te_inv lg_disable_te_inv)

lemma lg_init_inv: "lg_inv (lg_init n)"
  by (simp add: lg_inv_def lg_init_def lg_wf_def)

lemma lg_reachable_inv: "lg_reachable st \<Longrightarrow> lg_inv st"
  by (induction rule: lg_reachable.induct) (simp_all add: lg_init_inv lg_call_inv)

section \<open>Calls on an inactive TE\<close>

lemma llg_copy_te_inactive:
  "py_getitem (tes st) (te - 1) = Inr t \<Longrightarrow> te_status t = inactive \<Longrightarrow>
     llg_copy_te te offset st = (Inr None, st)"
  by (simp add: llg_copy_te_def)

lemma lg_copy_te_not_active:
  "map_of (active_TEs st) te = None \<Longrightarrow> lg_copy_te te offset st = (Inl KeyError, st)"
  by (simp add: lg_copy_te_def)

lemma lg_disable_te_not_active:
  "map_of (active_TEs st) te = None \<Longrightarrow> lg_disable_te te st = (Inl KeyError, st)"
  by (simp add: lg_disable_te_def)

text \<open>
  C2. The claim: in both classes \<^verbatim>\<open>copy_te\<close> on a TE that exists but is inactive returns
  None and changes nothing, unlike the failure for an id that was never created. In
  ListGenome it does not return: after \<^verbatim>\<open>insert_te(0, 1)\<close> and \<^verbatim>\<open>disable_te(1)\<close> on a
  genome of length 2, TE 1 has its record in \<^verbatim>\<open>inactive_TEs\<close>, and \<^verbatim>\<open>copy_te(1, 0)\<close> raises
  KeyError, the same exception as \<^verbatim>\<open>copy_te(7, 0)\<close> for the unknown id 7. LinkedListGenome
  returns None there and keeps its state.
\<close>

theorem lg_copy_te_inactive_raises:
  "(let st = snd (lg_run [Insert_te 0 1, Disable_te 1] (lg_init 2));
        st' = snd (llg_run [Insert_te 0 1, Disable_te 1] (llg_init 2))
    in map_of (inactive_TEs st) 1 = Some (0, 1)
     \<and> lg_copy_te 1 0 st = (Inl KeyError, st)
     \<and> lg_copy_te 7 0 st = (Inl KeyError, st)
     \<and> llg_copy_te 1 0 st' = (Inr None, st'))"
  by code_simp

text \<open>
  C6. The claim: in both classes a second \<^verbatim>\<open>disable_te\<close> on the same id is a no-op that
  neither changes the state nor fails. In ListGenome the second call raises KeyError
  (the record was popped from \<^verbatim>\<open>active_TEs\<close>, and the lookup comes before the membership
  test). In LinkedListGenome the call on an inactive TE rewrites the symbols at the
  positions its record names: after \<^verbatim>\<open>insert_te(0, 2)\<close> and \<^verbatim>\<open>insert_te(1, 2)\<close> on a genome
  of length 2, TE 1 is inactive with record (0, 2) and the genome reads \<^verbatim>\<open>xAAx--\<close>;
  \<^verbatim>\<open>disable_te(1)\<close> turns it into \<^verbatim>\<open>xxAx--\<close>, overwriting a symbol of the active TE 2.
\<close>

theorem disable_te_inactive_not_noop:
  "(let st = snd (lg_run [Insert_te 0 1, Disable_te 1] (lg_init 2));
        st' = snd (llg_run [Insert_te 0 2, Insert_te 1 2] (llg_init 2))
    in map_of (inactive_TEs st) 1 = Some (0, 1)
     \<and> lg_disable_te 1 st = (Inl KeyError, st)
     \<and> te_status (tes st' ! 0) = inactive
     \<and> llg_str st' = ''xAAx--''
     \<and> fst (llg_disable_te 1 st') = Inr ()
     \<and> llg_str (snd (llg_disable_te 1 st')) = ''xxAx--''
     \<and> llg_active_tes (snd (llg_disable_te 1 st')) = [2])"
  by code_simp

text \<open>
  C1. The claim: on every sequence of calls that meets the preconditions the two classes
  return the same values, raise in the same cases and end with the same length, string
  and active TEs. They do not: on a genome of length 2 the calls \<^verbatim>\<open>insert_te(0, 2)\<close>,
  \<^verbatim>\<open>insert_te(1, 2)\<close>, \<^verbatim>\<open>disable_te(1)\<close>, \<^verbatim>\<open>copy_te(1, 0)\<close>, \<^verbatim>\<open>str\<close> all meet their
  preconditions; ListGenome raises KeyError in the third and fourth and renders
  \<^verbatim>\<open>xAAx--\<close>, LinkedListGenome returns None in both and renders \<^verbatim>\<open>xxAx--\<close>.
\<close>

theorem realizations_differ:
  "(let cs = [Insert_te 0 2, Insert_te 1 2, Disable_te 1, Copy_te 1 0, Str]
    in lg_valid cs (lg_init 2) \<and> llg_valid cs (llg_init 2)
     \<and> fst (lg_run cs (lg_init 2))
         = [Inr (RInt 1), Inr (RInt 2), Inl KeyError, Inl KeyError, Inr (RStr ''xAAx--'')]
     \<and> fst (llg_run cs (llg_init 2))
         = [Inr (RInt 1), Inr (RInt 2), Inr RNone, Inr RNone, Inr (RStr ''xxAx--'')])"
  by code_simp

section \<open>The length of the genome\<close>

lemma snd_lg_run_Cons: "snd (lg_run (c # cs) st) = snd (lg_run cs (snd (lg_call c st)))"
  by (simp split: prod.splits)

lemma lg_copy_te_length:
  assumes inv: "lg_inv st"
  shows "int (length (genome (snd (lg_copy_te te offset st))))
           = int (length (genome st)) + lg_inserted (Copy_te te offset) st"
proof (cases "map_of (active_TEs st) te")
  case None
  then show ?thesis by (simp add: lg_copy_te_def)
next
  case (Some r)
  obtain s l where r: "r = (s, l)" by (cases r)
  note act = lg_copy_te_active [OF inv Some [unfolded r]]
  let ?p = "(s + offset) mod int (length (genome st))"
  from lg_insert_te_valid [OF inv act(2) [of offset] act(3) [of offset] act(4)] obtain st2 where
    ins: "lg_insert_te ?p l st = (Inr (number_of_TEs st + 1), lg_splice (number_of_TEs st + 1) ?p l st2)"
    by blast
  have "int (length (genome (snd (lg_insert_te ?p l st)))) = int (length (genome st)) + l"
    using inv act(2) [of offset] act(3) [of offset] act(4) by (rule lg_insert_te_length_valid)
  then show ?thesis using Some r ins by (simp add: act(5))
qed

lemma lg_call_length:
  assumes "lg_inv st" and "lg_pre c st"
  shows "lg_len (snd (lg_call c st)) = lg_len st + lg_inserted c st"
proof (cases c)
  case (Insert_te p len)
  with assms lg_insert_te_length_valid [of st p len] show ?thesis by (simp add: lg_len_def)
next
  case (Copy_te te offset)
  with lg_copy_te_length [OF assms(1), of te offset] show ?thesis by (simp add: lg_len_def)
next
  case (Disable_te te)
  then show ?thesis by (simp add: lg_len_def lg_disable_te_length)
qed (simp_all add: lg_len_def)

lemma lg_run_length:
  "lg_inv st \<Longrightarrow> lg_valid cs st \<Longrightarrow>
     lg_len (snd (lg_run cs st)) = lg_len st + lg_inserted_sum cs st"
proof (induction cs arbitrary: st)
  case Nil
  then show ?case by simp
next
  case (Cons c cs)
  from Cons.prems have pre: "lg_pre c st" and rest: "lg_valid cs (snd (lg_call c st))" by simp_all
  have inv': "lg_inv (snd (lg_call c st))" using Cons.prems(1) pre by (rule lg_call_inv)
  from Cons.IH [OF inv' rest] lg_call_length [OF Cons.prems(1) pre]
  show ?case by (simp only: snd_lg_run_Cons lg_inserted_sum.simps)
qed

lemma llg_copy_te_length:
  assumes inv: "llg_inv st"
  shows "int (length (ll_genome (snd (llg_copy_te te offset st))))
           = int (length (ll_genome st)) + llg_inserted (Copy_te te offset) st"
proof (cases "py_norm (length (tes st)) (te - 1)")
  case None
  then show ?thesis by (simp add: llg_copy_te_def py_getitem_def)
next
  case (Some k)
  let ?te = "tes st ! k"
  have get: "py_getitem (tes st) (te - 1) = Inr ?te" using Some by (simp add: py_getitem_def)
  have klt: "k < length (tes st)" using Some by (rule py_norm_Some)
  then have ok: "te_ok (length (ll_genome st)) ?te"
    using inv by (simp add: llg_inv_def list_all_length)
  show ?thesis
  proof (cases "te_status ?te")
    case inactive
    then show ?thesis using get by (simp add: llg_copy_te_def)
  next
    case active
    have n: "0 < length (ll_genome st)" using llg_inv_nonempty [OF inv] klt by force
    let ?p = "(offset + te_pos ?te) mod int (length (ll_genome st))"
    have rng: "0 \<le> ?p" "?p < int (length (ll_genome st))" using n by simp_all
    have len: "1 \<le> te_length ?te" using ok by (simp add: te_ok_def)
    from llg_insert_te_succeeds [OF inv rng len] obtain st1 where
      ins: "llg_insert_te ?p (te_length ?te) st
              = (Inr (int (length (tes st)) + 1), llg_splice ?p (te_length ?te) st1)" by blast
    have "int (length (ll_genome (snd (llg_insert_te ?p (te_length ?te) st))))
            = int (length (ll_genome st)) + te_length ?te"
      using inv rng len by (rule llg_insert_te_length_valid)
    then show ?thesis using get active n ins by (simp add: llg_copy_te_def)
  qed
qed

lemma llg_call_length:
  assumes "llg_inv st" and "llg_pre c st"
  shows "llg_len (snd (llg_call c st)) = llg_len st + llg_inserted c st"
proof (cases c)
  case (Insert_te p len)
  with assms llg_insert_te_length_valid [of st p len] show ?thesis by (simp add: llg_len_def)
next
  case (Copy_te te offset)
  with llg_copy_te_length [OF assms(1), of te offset] show ?thesis by (simp add: llg_len_def)
next
  case (Disable_te te)
  then show ?thesis by (simp add: llg_len_def llg_disable_te_length)
qed (simp_all add: llg_len_def)

lemma llg_run_length:
  "llg_inv st \<Longrightarrow> llg_valid cs st \<Longrightarrow>
     llg_len (snd (llg_run cs st)) = llg_len st + llg_inserted_sum cs st"
proof (induction cs arbitrary: st)
  case Nil
  then show ?case by simp
next
  case (Cons c cs)
  from Cons.prems have pre: "llg_pre c st" and rest: "llg_valid cs (snd (llg_call c st))" by simp_all
  have inv': "llg_inv (snd (llg_call c st))" using Cons.prems(1) by (rule llg_call_inv)
  from Cons.IH [OF inv' rest] llg_call_length [OF Cons.prems(1) pre]
  show ?case by (simp only: snd_llg_run_Cons llg_inserted_sum.simps)
qed

section \<open>copy_te and the wraparound\<close>

lemma lg_splice_new_record:
  "map_of (active_TEs (lg_splice new_id p len st2)) new_id = Some (p, len)"
  by (simp add: lg_splice_def map_of_shift_entry update_conv' shift_val_def)

lemma llg_splice_last:
  "last (tes (llg_splice p len st1))
     = \<lparr>te_id = int (length (tes st1)) + 1, te_pos = p, te_length = len, te_status = active\<rparr>"
  by (simp add: llg_splice_def shift_te_def)

text \<open>
  C8. For both classes, \<^verbatim>\<open>copy_te\<close> on an active TE (start \<open>s\<close>, length \<open>l\<close>) with any
  integer offset computes \<open>(s + offset) mod len\<close>, which lies in \<open>[0, len)\<close>, and is
  \<^verbatim>\<open>insert_te\<close> at that position with length \<open>l\<close>: same final state, the new id returned.
  The call succeeds, and the record of the new TE starts at that position.
\<close>

theorem copy_te_wraps_around:
  "(lg_reachable st \<and> map_of (active_TEs st) te = Some (s, l) \<longrightarrow>
      (let new_pos = (s + offset) mod lg_len st
       in 0 \<le> new_pos \<and> new_pos < lg_len st
        \<and> fst (lg_copy_te te offset st) = Inr (Some (number_of_TEs st + 1))
        \<and> fst (lg_insert_te new_pos l st) = Inr (number_of_TEs st + 1)
        \<and> snd (lg_copy_te te offset st) = snd (lg_insert_te new_pos l st)
        \<and> map_of (active_TEs (snd (lg_copy_te te offset st))) (number_of_TEs st + 1) = Some (new_pos, l)))
   \<and> (llg_reachable st' \<and> py_getitem (tes st') (te' - 1) = Inr t \<and> te_status t = active \<longrightarrow>
      (let new_pos = (te_pos t + offset) mod llg_len st'
       in 0 \<le> new_pos \<and> new_pos < llg_len st'
        \<and> fst (llg_copy_te te' offset st') = Inr (Some (int (length (tes st')) + 1))
        \<and> fst (llg_insert_te new_pos (te_length t) st') = Inr (int (length (tes st')) + 1)
        \<and> snd (llg_copy_te te' offset st') = snd (llg_insert_te new_pos (te_length t) st')
        \<and> last (tes (snd (llg_copy_te te' offset st')))
             = \<lparr>te_id = int (length (tes st')) + 1, te_pos = new_pos, te_length = te_length t,
                 te_status = active\<rparr>))"
proof (intro conjI impI)
  assume a: "lg_reachable st \<and> map_of (active_TEs st) te = Some (s, l)"
  then have inv: "lg_inv st" and te: "map_of (active_TEs st) te = Some (s, l)"
    by (simp_all add: lg_reachable_inv)
  note act = lg_copy_te_active [OF inv te]
  let ?p = "(s + offset) mod int (length (genome st))"
  from lg_insert_te_valid [OF inv act(2) [of offset] act(3) [of offset] act(4)] obtain st2 where
    ins: "lg_insert_te ?p l st = (Inr (number_of_TEs st + 1), lg_splice (number_of_TEs st + 1) ?p l st2)"
    by blast
  have cp: "lg_copy_te te offset st
      = (Inr (Some (number_of_TEs st + 1)), lg_splice (number_of_TEs st + 1) ?p l st2)"
    using ins by (simp add: act(5))
  show "let new_pos = (s + offset) mod lg_len st
       in 0 \<le> new_pos \<and> new_pos < lg_len st
        \<and> fst (lg_copy_te te offset st) = Inr (Some (number_of_TEs st + 1))
        \<and> fst (lg_insert_te new_pos l st) = Inr (number_of_TEs st + 1)
        \<and> snd (lg_copy_te te offset st) = snd (lg_insert_te new_pos l st)
        \<and> map_of (active_TEs (snd (lg_copy_te te offset st))) (number_of_TEs st + 1) = Some (new_pos, l)"
    unfolding Let_def lg_len_def using act(2) [of offset] act(3) [of offset]
    by (simp add: cp ins lg_splice_new_record)
next
  assume a: "llg_reachable st' \<and> py_getitem (tes st') (te' - 1) = Inr t \<and> te_status t = active"
  then have inv: "llg_inv st'" and get: "py_getitem (tes st') (te' - 1) = Inr t"
    and act: "te_status t = active" by (simp_all add: llg_reachable_inv)
  from get obtain k where k: "py_norm (length (tes st')) (te' - 1) = Some k" and t: "t = tes st' ! k"
    by (auto simp: py_getitem_def split: option.splits)
  have klt: "k < length (tes st')" using k by (rule py_norm_Some)
  then have ok: "te_ok (length (ll_genome st')) t"
    using inv t by (simp add: llg_inv_def list_all_length)
  have n: "0 < length (ll_genome st')" using llg_inv_nonempty [OF inv] klt by force
  let ?p = "(te_pos t + offset) mod int (length (ll_genome st'))"
  have rng: "0 \<le> ?p" "?p < int (length (ll_genome st'))" using n by simp_all
  have len: "1 \<le> te_length t" using ok by (simp add: te_ok_def)
  from llg_insert_te_succeeds [OF inv rng len] obtain st1 where
    ins: "llg_insert_te ?p (te_length t) st'
            = (Inr (int (length (tes st')) + 1), llg_splice ?p (te_length t) st1)"
    and st1: "llg_collision_step ?p st' = (Inr (), st1)" by blast
  have m: "length (tes st1) = length (tes st')" using llg_collision_step_lengths [OF st1] by simp
  have cp: "llg_copy_te te' offset st'
      = (Inr (Some (int (length (tes st')) + 1)), llg_splice ?p (te_length t) st1)"
    using get act n ins by (simp add: llg_copy_te_def add.commute)
  show "let new_pos = (te_pos t + offset) mod llg_len st'
       in 0 \<le> new_pos \<and> new_pos < llg_len st'
        \<and> fst (llg_copy_te te' offset st') = Inr (Some (int (length (tes st')) + 1))
        \<and> fst (llg_insert_te new_pos (te_length t) st') = Inr (int (length (tes st')) + 1)
        \<and> snd (llg_copy_te te' offset st') = snd (llg_insert_te new_pos (te_length t) st')
        \<and> last (tes (snd (llg_copy_te te' offset st')))
             = \<lparr>te_id = int (length (tes st')) + 1, te_pos = new_pos, te_length = te_length t,
                 te_status = active\<rparr>"
    unfolding Let_def llg_len_def using rng
    by (simp add: cp ins llg_splice_last m)
qed

lemma lg_example_eq: "snd (lg_call (Insert_te 1 1) (lg_init 2)) = lg_example"
  by code_simp

lemma lg_example_reachable: "lg_reachable lg_example"
proof -
  have "lg_pre (Insert_te 1 1) (lg_init 2)" by code_simp
  from lg_reach_call [OF lg_reach_init this] show ?thesis by (simp only: lg_example_eq)
qed

theorem copy_te_wraps_around_witness:
  "lg_reachable lg_example \<and> map_of (active_TEs lg_example) 1 = Some (1, 1)
   \<and> lg_len lg_example = 3 \<and> (1 + 4) mod 3 = (2::int) \<and> (1 + (- 5)) mod 3 = (2::int)
   \<and> fst (lg_copy_te 1 4 lg_example) = Inr (Some 2)
   \<and> snd (lg_copy_te 1 (- 5) lg_example) = snd (lg_insert_te 2 1 lg_example)
   \<and> llg_reachable llg_example \<and> py_getitem (tes llg_example) (1 - 1) = Inr (hd (tes llg_example))
   \<and> te_status (hd (tes llg_example)) = active
   \<and> snd (llg_copy_te 1 (- 5) llg_example) = snd (llg_insert_te 2 1 llg_example)
   \<and> te_pos (last (tes (snd (llg_copy_te 1 4 llg_example)))) = 2"
proof -
  have r: "lg_reachable lg_example" by (rule lg_example_reachable)
  have a: "map_of (active_TEs lg_example) 1 = Some (1, 1)" by code_simp
  have n: "lg_len lg_example = 3" "number_of_TEs lg_example = 1" by code_simp+
  have r': "llg_reachable llg_example" by (rule llg_example_reachable)
  have g: "py_getitem (tes llg_example) (1 - 1) = Inr (hd (tes llg_example))" by code_simp
  have s: "te_status (hd (tes llg_example)) = active" by code_simp
  have n': "llg_len llg_example = 3" "te_pos (hd (tes llg_example)) = 1"
    "te_length (hd (tes llg_example)) = 1" by code_simp+
  have m: "(1 + 4) mod 3 = (2::int)" "(1 + (- 5)) mod 3 = (2::int)" by simp_all
  note inst = copy_te_wraps_around [where st = lg_example and te = 1 and s = 1 and l = 1
      and st' = llg_example and te' = 1 and t = "hd (tes llg_example)", unfolded Let_def n n' ]
  from inst [of 4] r a r' g s
  have "fst (lg_copy_te 1 4 lg_example) = Inr (Some (1 + 1))"
    and "last (tes (snd (llg_copy_te 1 4 llg_example)))
           = \<lparr>te_id = int (length (tes llg_example)) + 1, te_pos = 2, te_length = 1, te_status = active\<rparr>"
    unfolding m by blast+
  then have c4: "fst (lg_copy_te 1 4 lg_example) = Inr (Some 2)"
    "te_pos (last (tes (snd (llg_copy_te 1 4 llg_example)))) = 2"
    by simp_all
  from inst [of "- 5"] r a r' g s
  have c5: "snd (lg_copy_te 1 (- 5) lg_example) = snd (lg_insert_te 2 1 lg_example)"
    "snd (llg_copy_te 1 (- 5) llg_example) = snd (llg_insert_te 2 1 llg_example)"
    unfolding m by blast+
  from r a n(1) m c4 c5 r' g s show ?thesis by blast
qed

section \<open>insert_te and the start of the records\<close>

lemma map_te_pos_update [simp]:
  "map te_pos (ts[k := (ts ! k)\<lparr>te_status := s\<rparr>]) = map te_pos ts"
  by (cases "k < length ts") (auto simp: nth_list_update intro!: nth_equalityI)

lemma map_te_length_update [simp]:
  "map te_length (ts[k := (ts ! k)\<lparr>te_status := s\<rparr>]) = map te_length ts"
  by (cases "k < length ts") (auto simp: nth_list_update intro!: nth_equalityI)

lemma llg_collide_records:
  "llg_collide nuc st = (r, st1) \<Longrightarrow>
     map te_pos (tes st1) = map te_pos (tes st) \<and> map te_length (tes st1) = map te_length (tes st)
     \<and> map te_id (tes st1) = map te_id (tes st)"
  by (auto simp: llg_collide_def Let_def split: option.splits prod.splits sum.splits)

lemma llg_collision_step_records:
  "llg_collision_step p st = (r, st1) \<Longrightarrow>
     map te_pos (tes st1) = map te_pos (tes st) \<and> map te_length (tes st1) = map te_length (tes st)
     \<and> map te_id (tes st1) = map te_id (tes st)"
  by (auto simp: llg_collision_step_def split: sum.splits if_splits dest: llg_collide_records)

lemma map_eq_nth: "map f xs = map f ys \<Longrightarrow> i < length ys \<Longrightarrow> f (xs ! i) = f (ys ! i)"
  by (metis length_map nth_map)

text \<open>
  C9, the claim as written fails in ListGenome for the records of inactive TEs: on a
  genome of length 3, after \<^verbatim>\<open>insert_te(2, 1)\<close> and \<^verbatim>\<open>disable_te(1)\<close> the record of TE 1
  is (2, 1) in \<^verbatim>\<open>inactive_TEs\<close>; \<^verbatim>\<open>insert_te(0, 1)\<close> is valid and 2 > 0, yet the record is
  still (2, 1) afterwards (the symbol of TE 1 is now at position 3). LinkedListGenome
  moves the record to 3.
\<close>

theorem lg_insert_te_keeps_inactive_start:
  "(let st = snd (lg_run [Insert_te 2 1, Disable_te 1] (lg_init 3));
        st1 = snd (lg_insert_te 0 1 st);
        st' = snd (llg_run [Insert_te 2 1, Disable_te 1] (llg_init 3));
        st1' = snd (llg_insert_te 0 1 st')
    in lg_pre (Insert_te 0 1) st
     \<and> map_of (inactive_TEs st) 1 = Some (2, 1) \<and> (0::int) < 2
     \<and> map_of (inactive_TEs st1) 1 = Some (2, 1)
     \<and> map_of (inactive_TEs st1) 1 \<noteq> Some (2 + 1, 1)
     \<and> lg_str st1 = ''A--x-''
     \<and> te_pos (tes st' ! 0) = 2 \<and> te_pos (tes st1' ! 0) = 3)"
  by code_simp

text \<open>
  The records after an \<^verbatim>\<open>insert_te(pos, length)\<close> with \<open>0 \<le> pos < len\<close> and \<open>length \<ge> 1\<close>,
  in a reachable state: the call returns the next id; LinkedListGenome adds \<open>length\<close> to
  the start of every record whose start is greater than \<open>pos\<close> and appends the new record;
  ListGenome does so for the records of \<^verbatim>\<open>active_TEs\<close> (\<open>shift_val\<close>), from which the TE hit
  by the collision rule is taken out first, and leaves the records of \<^verbatim>\<open>inactive_TEs\<close> as
  they are, the TE hit by the collision rule joining them with the record it had.
\<close>

lemma insert_te_records_shifted:
  "(lg_reachable st \<and> lg_pre (Insert_te p len) st \<longrightarrow>
      (let st1 = snd (lg_insert_te p len st);
           new_id = number_of_TEs st + 1;
           hit = (fst (genome st ! nat p) = CHR ''A'');
           k = snd (genome st ! nat p)
       in fst (lg_insert_te p len st) = Inr new_id
        \<and> (\<forall>t. map_of (active_TEs st1) t =
                  (if t = new_id then Some (p, len)
                   else if hit \<and> t = k then None
                   else map_option (shift_val p len) (map_of (active_TEs st) t)))
        \<and> (\<forall>t. map_of (inactive_TEs st1) t =
                  (if hit \<and> t = k then map_of (active_TEs st) k else map_of (inactive_TEs st) t))))
   \<and> (llg_reachable st' \<and> llg_pre (Insert_te p len) st' \<longrightarrow>
      (let st1 = snd (llg_insert_te p len st'); m = length (tes st')
       in fst (llg_insert_te p len st') = Inr (int m + 1)
        \<and> length (tes st1) = m + 1
        \<and> (\<forall>i < m. te_pos (tes st1 ! i) =
                       (if te_pos (tes st' ! i) > p then te_pos (tes st' ! i) + len
                        else te_pos (tes st' ! i))
                   \<and> te_length (tes st1 ! i) = te_length (tes st' ! i)
                   \<and> te_id (tes st1 ! i) = te_id (tes st' ! i))
        \<and> tes st1 ! m = \<lparr>te_id = int m + 1, te_pos = p, te_length = len, te_status = active\<rparr>))"
proof (intro conjI impI)
  assume "lg_reachable st \<and> lg_pre (Insert_te p len) st"
  then have inv: "lg_inv st" and rng: "0 \<le> p" "p < int (length (genome st))" and len: "1 \<le> len"
    by (simp_all add: lg_reachable_inv)
  let ?c = "number_of_TEs st" and ?k = "snd (genome st ! nat p)"
  let ?hit = "fst (genome st ! nat p) = CHR ''A''"
  from lg_collision_step_valid [OF inv rng] obtain st2 where
    step: "lg_collision_step p st = (Inr (), st2)"
    and eff: "if ?hit
        then active_TEs st2 = AList.delete ?k (active_TEs st)
           \<and> (\<exists>s l. map_of (active_TEs st) ?k = Some (s, l) \<and> s \<le> p \<and> p < s + l
                 \<and> inactive_TEs st2 = AList.update ?k (s, l) (inactive_TEs st)
                 \<and> (\<forall>i < length (genome st). genome st2 ! i =
                       (if s \<le> int i \<and> int i < s + l then (CHR ''x'', ?k) else genome st ! i)))
        else st2 = st\<lparr>number_of_TEs := ?c + 1\<rparr>"
    by blast
  have ins: "lg_insert_te p len st = (Inr (?c + 1), lg_splice (?c + 1) p len st2)"
    using step by (simp add: lg_insert_te_split)
  from inv have d: "distinct (map fst (active_TEs st))"
    and wf: "lg_wf (genome st) (map_of (active_TEs st)) ?c" by (simp_all add: lg_inv_def)
  have fresh: "map_of (active_TEs st) (?c + 1) = None"
  proof (cases "map_of (active_TEs st) (?c + 1)")
    case None then show ?thesis .
  next
    case (Some r)
    obtain s l where "r = (s, l)" by (cases r)
    with Some wf have "?c + 1 \<le> ?c" unfolding lg_wf_def by blast
    then show ?thesis by simp
  qed
  have act2: "map_of (active_TEs st2) t = (if ?hit \<and> t = ?k then None else map_of (active_TEs st) t)" for t
    using eff by (auto simp: delete_conv' split: if_splits)
  have inact2: "map_of (inactive_TEs st2) t
      = (if ?hit \<and> t = ?k then map_of (active_TEs st) ?k else map_of (inactive_TEs st) t)" for t
    using eff by (auto simp: update_conv' split: if_splits)
  have A: "map_of (active_TEs (lg_splice (?c + 1) p len st2)) t =
             (if t = ?c + 1 then Some (p, len)
              else if ?hit \<and> t = ?k then None
              else map_option (shift_val p len) (map_of (active_TEs st) t))" for t
    by (simp add: lg_splice_def map_of_shift_entry update_conv' act2 shift_val_def)
  have I: "map_of (inactive_TEs (lg_splice (?c + 1) p len st2)) t
      = (if ?hit \<and> t = ?k then map_of (active_TEs st) ?k else map_of (inactive_TEs st) t)" for t
    using inact2 [of t] by (simp add: lg_splice_def)
  show "let st1 = snd (lg_insert_te p len st);
           new_id = number_of_TEs st + 1;
           hit = (fst (genome st ! nat p) = CHR ''A'');
           k = snd (genome st ! nat p)
       in fst (lg_insert_te p len st) = Inr new_id
        \<and> (\<forall>t. map_of (active_TEs st1) t =
                  (if t = new_id then Some (p, len)
                   else if hit \<and> t = k then None
                   else map_option (shift_val p len) (map_of (active_TEs st) t)))
        \<and> (\<forall>t. map_of (inactive_TEs st1) t =
                  (if hit \<and> t = k then map_of (active_TEs st) k else map_of (inactive_TEs st) t))"
    unfolding Let_def ins fst_conv snd_conv
  proof (intro conjI allI)
    show "Inr (number_of_TEs st + 1) = (Inr (number_of_TEs st + 1) :: error + int)" by (rule refl)
  qed (rule A, rule I)
next
  assume "llg_reachable st' \<and> llg_pre (Insert_te p len) st'"
  then have inv: "llg_inv st'" and rng: "0 \<le> p" "p < int (length (ll_genome st'))" and len: "1 \<le> len"
    by (simp_all add: llg_reachable_inv)
  let ?m = "length (tes st')"
  from llg_insert_te_succeeds [OF inv rng len] obtain st1 where
    step: "llg_collision_step p st' = (Inr (), st1)"
    and ins: "llg_insert_te p len st' = (Inr (int ?m + 1), llg_splice p len st1)" by blast
  have m1: "length (tes st1) = ?m" using llg_collision_step_lengths [OF step] by simp
  note recs = llg_collision_step_records [OF step]
  have old: "te_pos (tes (llg_splice p len st1) ! i) =
               (if te_pos (tes st' ! i) > p then te_pos (tes st' ! i) + len else te_pos (tes st' ! i))
           \<and> te_length (tes (llg_splice p len st1) ! i) = te_length (tes st' ! i)
           \<and> te_id (tes (llg_splice p len st1) ! i) = te_id (tes st' ! i)" if "i < ?m" for i
  proof -
    have e: "te_pos (tes st1 ! i) = te_pos (tes st' ! i)" "te_length (tes st1 ! i) = te_length (tes st' ! i)"
      "te_id (tes st1 ! i) = te_id (tes st' ! i)"
      by (rule map_eq_nth [OF recs [THEN conjunct1] that],
          rule map_eq_nth [OF recs [THEN conjunct2, THEN conjunct1] that],
          rule map_eq_nth [OF recs [THEN conjunct2, THEN conjunct2] that])
    have "tes (llg_splice p len st1) ! i = shift_te p len (tes st1 ! i)"
      using that m1 by (simp add: llg_splice_def nth_append)
    then show ?thesis using e by (simp add: shift_te_def)
  qed
  have new: "tes (llg_splice p len st1) ! ?m
      = \<lparr>te_id = int ?m + 1, te_pos = p, te_length = len, te_status = active\<rparr>"
    using m1 by (simp add: llg_splice_def nth_append shift_te_def)
  have l: "length (tes (llg_splice p len st1)) = ?m + 1" using m1 by (simp add: llg_splice_def)
  show "let st1 = snd (llg_insert_te p len st'); m = length (tes st')
       in fst (llg_insert_te p len st') = Inr (int m + 1)
        \<and> length (tes st1) = m + 1
        \<and> (\<forall>i < m. te_pos (tes st1 ! i) =
                       (if te_pos (tes st' ! i) > p then te_pos (tes st' ! i) + len
                        else te_pos (tes st' ! i))
                   \<and> te_length (tes st1 ! i) = te_length (tes st' ! i)
                   \<and> te_id (tes st1 ! i) = te_id (tes st' ! i))
        \<and> tes st1 ! m = \<lparr>te_id = int m + 1, te_pos = p, te_length = len, te_status = active\<rparr>"
    unfolding Let_def ins fst_conv snd_conv
  proof (intro conjI allI impI)
    show "Inr (int (length (tes st')) + 1) = (Inr (int (length (tes st')) + 1) :: error + int)"
      by (rule refl)
  qed (use old new l in simp_all)
qed

section \<open>Calls that violate a precondition\<close>

lemma list_all_delete: "list_all P al \<Longrightarrow> list_all P (AList.delete k al)"
  by (auto simp: list_all_iff AList.delete_eq)

lemma list_all_fst_update:
  "list_all (\<lambda>e. Q (fst e)) al \<Longrightarrow> Q k \<Longrightarrow> list_all (\<lambda>e. Q (fst e)) (AList.update k v al)"
  by (induction al) auto

lemma list_all_fst_shift:
  "list_all (\<lambda>e. Q (fst e)) al \<Longrightarrow> list_all (\<lambda>e. Q (fst e)) (map (shift_entry p len) al)"
  by (auto simp: list_all_iff shift_entry_def)

lemma lg_disable_te_ids_pos: "lg_ids_pos st \<Longrightarrow> lg_ids_pos (snd (lg_disable_te te st))"
  by (auto simp: lg_disable_te_def lg_ids_pos_def list_all_delete
      split: option.splits prod.splits sum.splits)

lemma lg_collision_step_ids_pos:
  assumes "lg_ids_pos st"
  shows "0 \<le> number_of_TEs st \<and> list_all (\<lambda>e. 1 \<le> fst e) (active_TEs (snd (lg_collision_step p st)))
       \<and> number_of_TEs (snd (lg_collision_step p st)) = number_of_TEs st + 1"
proof -
  let ?st1 = "st\<lparr>number_of_TEs := number_of_TEs st + 1\<rparr>"
  have 1: "lg_ids_pos ?st1" using assms by (simp add: lg_ids_pos_def)
  have "number_of_TEs (snd (lg_disable_te te ?st1)) = number_of_TEs st + 1" for te
    by (auto simp: lg_disable_te_def split: option.splits prod.splits sum.splits)
  with lg_disable_te_ids_pos [OF 1] 1 assms show ?thesis
    by (auto simp: lg_collision_step_def Let_def lg_ids_pos_def split: sum.splits)
qed

lemma lg_insert_te_ids_pos:
  assumes "lg_ids_pos st"
  shows "lg_ids_pos (snd (lg_insert_te p len st))"
proof (cases "lg_collision_step p st")
  case (Pair r st2)
  from lg_collision_step_ids_pos [OF assms, of p] Pair
  have c: "0 \<le> number_of_TEs st" and a: "list_all (\<lambda>e. 1 \<le> fst e) (active_TEs st2)"
    and n: "number_of_TEs st2 = number_of_TEs st + 1" by simp_all
  show ?thesis
  proof (cases r)
    case (Inl e)
    with Pair a n c show ?thesis by (simp add: lg_insert_te_split lg_ids_pos_def)
  next
    case (Inr u)
    have "list_all (\<lambda>e. 1 \<le> fst e)
            (map (shift_entry p len) (AList.update (number_of_TEs st + 1) (p, len) (active_TEs st2)))"
      using a c by (intro list_all_fst_shift list_all_fst_update) simp_all
    with Pair Inr n c show ?thesis by (simp add: lg_insert_te_split lg_ids_pos_def lg_splice_def)
  qed
qed

lemma lg_copy_te_ids_pos: "lg_ids_pos st \<Longrightarrow> lg_ids_pos (snd (lg_copy_te te offset st))"
proof -
  assume a: "lg_ids_pos st"
  have "lg_ids_pos st'" if "lg_insert_te p len st = (r, st')" for p len r st'
    using lg_insert_te_ids_pos [OF a, of p len] that by simp
  with a show ?thesis
    by (auto simp: lg_copy_te_def split: sum.splits prod.splits option.splits)
qed

lemma lg_call_ids_pos: "lg_ids_pos st \<Longrightarrow> lg_ids_pos (snd (lg_call c st))"
  by (cases c) (simp_all add: lg_insert_te_ids_pos lg_copy_te_ids_pos lg_disable_te_ids_pos)

lemma lg_reachable_ids_pos: "lg_reachable st \<Longrightarrow> lg_ids_pos st"
  by (induction rule: lg_reachable.induct) (simp_all add: lg_call_ids_pos, simp add: lg_ids_pos_def lg_init_def)

lemma lg_reachable_unallocated:
  assumes "lg_reachable st" and "te < 1 \<or> number_of_TEs st < te"
  shows "map_of (active_TEs st) te = None"
proof (cases "map_of (active_TEs st) te")
  case None then show ?thesis .
next
  case (Some r)
  obtain s l where r: "r = (s, l)" by (cases r)
  have "lg_wf (genome st) (map_of (active_TEs st)) (number_of_TEs st)"
    using lg_reachable_inv [OF assms(1)] by (simp add: lg_inv_def)
  with Some r have hi: "te \<le> number_of_TEs st" unfolding lg_wf_def by blast
  have "(te, r) \<in> set (active_TEs st)" using Some by (rule map_of_SomeD)
  moreover have "list_all (\<lambda>e. 1 \<le> fst e) (active_TEs st)"
    using lg_reachable_ids_pos [OF assms(1)] by (simp add: lg_ids_pos_def)
  ultimately have "1 \<le> te" by (auto simp: list_all_iff)
  with hi assms(2) show ?thesis by simp
qed

lemma py_getitem_outside:
  "\<not> (- int (length g) \<le> p \<and> p < int (length g)) \<Longrightarrow> py_getitem g p = Inl IndexError"
  by (auto simp: py_getitem_def py_norm_def)

text \<open>
  C3, the claim as written fails. ListGenome accepts a length 0 and a negative position
  (\<^verbatim>\<open>insert_te(0, 0)\<close> and \<^verbatim>\<open>insert_te(-1, 1)\<close> return the id 1), and its \<^verbatim>\<open>insert_te(5, 1)\<close>
  on a genome of length 2 raises IndexError after the counter went from 0 to 1.
  LinkedListGenome answers a length 0 with AttributeError, after the collision rule has
  rewritten the genome (\<^verbatim>\<open>-A-\<close> becomes \<^verbatim>\<open>-x-\<close>), and accepts the id 0, which was never
  allocated.
\<close>

theorem rejected_calls_counterexample:
  "fst (lg_insert_te 0 0 (lg_init 1)) = Inr 1
   \<and> fst (lg_insert_te (- 1) 1 (lg_init 2)) = Inr 1
   \<and> fst (lg_insert_te 5 1 (lg_init 2)) = Inl IndexError
   \<and> number_of_TEs (lg_init 2) = 0
   \<and> number_of_TEs (snd (lg_insert_te 5 1 (lg_init 2))) = 1
   \<and> llg_str llg_example = ''-A-''
   \<and> fst (llg_insert_te 1 0 llg_example) = Inl AttributeError
   \<and> llg_str (snd (llg_insert_te 1 0 llg_example)) = ''-x-''
   \<and> fst (llg_disable_te 0 llg_example) = Inr ()"
  by code_simp

section \<open>No overlapping actives and the collision rule\<close>

lemma lg_no_overlapping_actives:
  assumes "lg_reachable st"
  shows "no_overlapping_actives (lg_len st) (active_TEs st)"
proof -
  from lg_reachable_inv [OF assms] have d: "distinct (map fst (active_TEs st))"
    and wf: "lg_wf (genome st) (map_of (active_TEs st)) (number_of_TEs st)"
    by (simp_all add: lg_inv_def)
  let ?n = "int (length (genome st))"
  have pos: "x \<in> set (circ_range ?n (s, l)) \<Longrightarrow> genome st ! nat x = (CHR ''A'', k)"
    if "(k, (s, l)) \<in> set (active_TEs st)" for k s l x
  proof -
    assume x: "x \<in> set (circ_range ?n (s, l))"
    have m: "map_of (active_TEs st) k = Some (s, l)" using d that by (rule map_of_is_SomeI)
    with wf have b: "0 \<le> s" "s + l \<le> ?n"
      and A: "\<forall>i. s \<le> i \<and> i < s + l \<longrightarrow> genome st ! nat i = (CHR ''A'', k)"
      unfolding lg_wf_def by blast+
    from x obtain i where i: "0 \<le> i" "i < l" "x = (s + i) mod ?n"
      by (auto simp: circ_range_def)
    then have "x = s + i" using b by simp
    with A i show ?thesis by simp
  qed
  show ?thesis unfolding no_overlapping_actives_def lg_len_def
  proof (intro ballI impI)
    fix a b x
    assume a: "a \<in> set (active_TEs st)" and b: "b \<in> set (active_TEs st)" and ne: "fst a \<noteq> fst b"
      and x: "x \<in> set (circ_range ?n (snd a))"
    obtain k s l where ea: "a = (k, (s, l))" by (cases a) auto
    obtain k' s' l' where eb: "b = (k', (s', l'))" by (cases b) auto
    show "x \<notin> set (circ_range ?n (snd b))"
    proof
      assume "x \<in> set (circ_range ?n (snd b))"
      then have "genome st ! nat x = (CHR ''A'', k')" using pos [of k' s' l' x] b eb by simp
      moreover have "genome st ! nat x = (CHR ''A'', k)" using pos [of k s l x] a x ea by simp
      ultimately show False using ne ea eb by simp
    qed
  qed
qed

text \<open>
  C5. The claim: in every state reached by valid calls, in either class, the ranges of two
  different active TE records do not intersect. It holds for ListGenome
  (\<open>lg_no_overlapping_actives\<close>). In LinkedListGenome, on a genome of length 2, the valid
  calls \<^verbatim>\<open>insert_te(0, 2)\<close>, \<^verbatim>\<open>insert_te(1, 2)\<close>, \<^verbatim>\<open>disable_te(1)\<close>, \<^verbatim>\<open>insert_te(1, 1)\<close> end
  with TE 2 (start 1, length 2) and TE 3 (start 1, length 1) both active: the third call
  rewrote the symbol of TE 2 at position 1 to x, so the fourth saw no collision there.
\<close>

theorem llg_actives_overlap:
  "(let cs = [Insert_te 0 2, Insert_te 1 2, Disable_te 1, Insert_te 1 1];
        st = snd (llg_run cs (llg_init 2))
    in llg_valid cs (llg_init 2)
     \<and> llg_active_records st = [(2, (1, 2)), (3, (1, 1))]
     \<and> llg_active_tes st = [2, 3]
     \<and> llg_len st = 7
     \<and> 1 \<in> set (circ_range (llg_len st) (1, 2))
     \<and> 1 \<in> set (circ_range (llg_len st) (1, 1)))"
  by code_simp

lemma llg_example_not_no_overlapping_actives:
  "(let st = snd (llg_run [Insert_te 0 2, Insert_te 1 2, Disable_te 1, Insert_te 1 1] (llg_init 2))
    in \<not> no_overlapping_actives (llg_len st) (llg_active_records st))"
  by code_simp

text \<open>
  C4. The claim: a valid \<^verbatim>\<open>insert_te\<close> at a position whose symbol is A and belongs to TE k
  flips all positions of k to inactive, and the new TE is the only active occupant of
  its range. In LinkedListGenome, after the four calls above the genome reads
  \<^verbatim>\<open>xAxAx--\<close> and position 3 holds an A of TE 2, whose record still says start 1, length 2.
  The valid \<^verbatim>\<open>insert_te(3, 1)\<close> returns id 4 and marks TE 2 inactive, but it rewrites
  positions 1 and 2 (position 1 was the A of the active TE 3) and leaves the A of TE 2
  in place: it is at position 4 of the result \<^verbatim>\<open>xxxAAx--\<close>.
\<close>

theorem llg_collision_misses_symbols:
  "(let cs = [Insert_te 0 2, Insert_te 1 2, Disable_te 1, Insert_te 1 1];
        st = snd (llg_run cs (llg_init 2));
        st1 = snd (llg_insert_te 3 1 st)
    in llg_valid (cs @ [Insert_te 3 1]) (llg_init 2)
     \<and> llg_str st = ''xAxAx--''
     \<and> get_element_at_index (ll_genome st) 3 = Inr \<lparr>symbol = CHR ''A'', nid = Some 2\<rparr>
     \<and> fst (llg_insert_te 3 1 st) = Inr 4
     \<and> te_status (tes st1 ! 1) = inactive
     \<and> llg_str st1 = ''xxxAAx--''
     \<and> ll_genome st1 ! 4 = \<lparr>symbol = CHR ''A'', nid = Some 2\<rparr>
     \<and> ll_genome st1 ! 1 = \<lparr>symbol = CHR ''x'', nid = Some 2\<rparr>
     \<and> llg_active_tes st1 = [3, 4])"
  by code_simp

section \<open>The collision rule in ListGenome\<close>

text \<open>
  The collision rule in ListGenome, in every state reached by valid calls: if the symbol
  at \<open>pos\<close> is an A of TE \<open>k\<close>, then \<open>k\<close> has an active record \<open>(s, l)\<close> whose range holds
  \<open>pos\<close>; after \<^verbatim>\<open>insert_te(pos, length)\<close> the record is in \<^verbatim>\<open>inactive_TEs\<close>, every position
  of the range reads x (those from \<open>pos\<close> on moved right by \<open>length\<close>), the new TE has
  the record \<open>(pos, length)\<close> and its A's fill \<open>[pos, pos + length)\<close>, and every symbol from
  \<open>pos\<close> on has moved right by \<open>length\<close>.
\<close>

lemma lg_insert_te_collision:
  assumes "lg_reachable st" and "lg_pre (Insert_te p len) st"
    and "genome st ! nat p = (CHR ''A'', k)"
  shows "\<exists>s l. map_of (active_TEs st) k = Some (s, l) \<and> s \<le> p \<and> p < s + l \<and>
     (let st1 = snd (lg_insert_te p len st); new_id = number_of_TEs st + 1
      in fst (lg_insert_te p len st) = Inr new_id
       \<and> map_of (active_TEs st1) k = None
       \<and> map_of (inactive_TEs st1) k = Some (s, l)
       \<and> map_of (active_TEs st1) new_id = Some (p, len)
       \<and> length (genome st1) = length (genome st) + nat len
       \<and> (\<forall>i < nat p. genome st1 ! i = (if s \<le> int i then (CHR ''x'', k) else genome st ! i))
       \<and> (\<forall>i. nat p \<le> i \<and> i < nat p + nat len \<longrightarrow> genome st1 ! i = (CHR ''A'', new_id))
       \<and> (\<forall>i. nat p \<le> i \<and> i < length (genome st) \<longrightarrow>
             genome st1 ! (i + nat len) = (if int i < s + l then (CHR ''x'', k) else genome st ! i)))"
proof -
  from assms(1,2) have inv: "lg_inv st" and rng: "0 \<le> p" "p < int (length (genome st))"
    and len: "1 \<le> len" by (simp_all add: lg_reachable_inv)
  let ?c = "number_of_TEs st"
  have hit: "fst (genome st ! nat p) = CHR ''A''" and k: "snd (genome st ! nat p) = k"
    using assms(3) by simp_all
  from lg_collision_step_valid [OF inv rng] hit k obtain st2 s l where
    step: "lg_collision_step p st = (Inr (), st2)"
    and l2: "length (genome st2) = length (genome st)"
    and act2: "active_TEs st2 = AList.delete k (active_TEs st)"
    and rec: "map_of (active_TEs st) k = Some (s, l)" "s \<le> p" "p < s + l"
    and inact2: "inactive_TEs st2 = AList.update k (s, l) (inactive_TEs st)"
    and g2: "\<forall>i < length (genome st). genome st2 ! i =
               (if s \<le> int i \<and> int i < s + l then (CHR ''x'', k) else genome st ! i)"
    by auto
  have ins: "lg_insert_te p len st = (Inr (?c + 1), lg_splice (?c + 1) p len st2)"
    using step by (simp add: lg_insert_te_split)
  let ?st1 = "lg_splice (?c + 1) p len st2"
  have P: "nat p \<le> length (genome st2)" using rng l2 by simp
  have g1: "genome ?st1 = take (nat p) (genome st2) @ replicate (nat len) (CHR ''A'', ?c + 1)
                          @ drop (nat p) (genome st2)"
    using rng l2 by (simp add: lg_splice_def py_slice_insert_nonneg)
  from inv have wf: "lg_wf (genome st) (map_of (active_TEs st)) ?c" by (simp add: lg_inv_def)
  with rec(1) have kc: "k \<le> ?c" unfolding lg_wf_def by blast
  have a: "map_of (active_TEs ?st1) k = None"
    using kc by (simp add: lg_splice_def map_of_shift_entry update_conv' act2 delete_conv')
  have b: "map_of (inactive_TEs ?st1) k = Some (s, l)"
    by (simp add: lg_splice_def inact2 update_conv')
  have c: "map_of (active_TEs ?st1) (?c + 1) = Some (p, len)" by (rule lg_splice_new_record)
  have d: "length (genome ?st1) = length (genome st) + nat len" using P l2 by (simp add: g1)
  have e: "genome ?st1 ! i = (if s \<le> int i then (CHR ''x'', k) else genome st ! i)" if "i < nat p" for i
  proof -
    have "genome ?st1 ! i = genome st2 ! i" unfolding g1 using P that by (rule nth_splice_before)
    moreover have "i < length (genome st)" "int i < s + l" using that rng rec by linarith+
    ultimately show ?thesis using g2 by simp
  qed
  have f: "genome ?st1 ! i = (CHR ''A'', ?c + 1)" if "nat p \<le> i \<and> i < nat p + nat len" for i
    unfolding g1 using P that by (auto intro: nth_splice_new)
  have g: "genome ?st1 ! (i + nat len) = (if int i < s + l then (CHR ''x'', k) else genome st ! i)"
    if "nat p \<le> i \<and> i < length (genome st)" for i
  proof -
    have "nat p + nat len \<le> i + nat len" "i + nat len < length (genome st2) + nat len"
      using that l2 by simp_all
    with P have "genome ?st1 ! (i + nat len) = genome st2 ! (i + nat len - nat len)"
      unfolding g1 by (rule nth_splice_after)
    moreover have "s \<le> int i" using that rec rng by linarith
    ultimately show ?thesis using g2 that by simp
  qed
  show ?thesis
  proof (intro exI conjI)
    show "map_of (active_TEs st) k = Some (s, l)" "s \<le> p" "p < s + l" by fact+
    show "let st1 = snd (lg_insert_te p len st); new_id = number_of_TEs st + 1
      in fst (lg_insert_te p len st) = Inr new_id
       \<and> map_of (active_TEs st1) k = None
       \<and> map_of (inactive_TEs st1) k = Some (s, l)
       \<and> map_of (active_TEs st1) new_id = Some (p, len)
       \<and> length (genome st1) = length (genome st) + nat len
       \<and> (\<forall>i < nat p. genome st1 ! i = (if s \<le> int i then (CHR ''x'', k) else genome st ! i))
       \<and> (\<forall>i. nat p \<le> i \<and> i < nat p + nat len \<longrightarrow> genome st1 ! i = (CHR ''A'', new_id))
       \<and> (\<forall>i. nat p \<le> i \<and> i < length (genome st) \<longrightarrow>
             genome st1 ! (i + nat len) = (if int i < s + l then (CHR ''x'', k) else genome st ! i))"
      unfolding Let_def ins fst_conv snd_conv
      using a b c d e f g by (intro conjI allI impI) simp_all
  qed
qed

section \<open>The two classes agree on calls that name active TEs\<close>

lemma update_fresh: "k \<notin> fst ` set al \<Longrightarrow> AList.update k v al = al @ [(k, v)]"
  by (induction al) auto

lemma for_each_joint:
  assumes body': "\<And>n h. 0 \<le> n \<Longrightarrow> n < int (length h) \<Longrightarrow> body' n h = Inr (h[nat n := f (h ! nat n)])"
    and P: "\<And>y. P v (f y)"
    and rel: "list_all2 P g g'"
    and rng: "\<forall>n \<in> set ns. 0 \<le> n \<and> n < int (length g)"
  shows "\<exists>h h'. for_each (py_setitem v) ns g = (Inr (), h) \<and> for_each body' ns g' = (Inr (), h')
           \<and> list_all2 P h h'"
  using rel rng
proof (induction ns arbitrary: g g')
  case Nil
  then show ?case by simp
next
  case (Cons n ns)
  have n: "0 \<le> n" "n < int (length g)" using Cons.prems(2) by simp_all
  have n': "n < int (length g')" using n Cons.prems(1) by (simp add: list_all2_lengthD)
  let ?g1 = "g[nat n := v]" and ?g1' = "g'[nat n := f (g' ! nat n)]"
  have s1: "py_setitem v n g = Inr ?g1" using n by (rule py_setitem_nonneg)
  have s1': "body' n g' = Inr ?g1'" using n(1) n' by (rule body')
  have rel1: "list_all2 P ?g1 ?g1'" using Cons.prems(1) P by (rule list_all2_update_cong)
  have "\<forall>m \<in> set ns. 0 \<le> m \<and> m < int (length ?g1)" using Cons.prems(2) by simp
  from Cons.IH [OF rel1 this] s1 s1' show ?case by simp
qed

lemma set_at_index_nonneg:
  "0 \<le> n \<Longrightarrow> n < int (length h) \<Longrightarrow> set_at_index v n h = Inr (h[nat n := (\<lambda>y. v) (h ! nat n)])"
  by (simp add: set_at_index_def get_link_at_index_eq)

lemma set_symbol_at_index_nonneg:
  "0 \<le> n \<Longrightarrow> n < int (length h) \<Longrightarrow>
     set_symbol_at_index c n h = Inr (h[nat n := (\<lambda>y. y\<lparr>symbol := c\<rparr>) (h ! nat n)])"
  by (simp add: set_symbol_at_index_def get_link_at_index_eq)

lemma llg_inv_ids:
  assumes "llg_inv st" and "j < length (tes st)"
  shows "te_id (tes st ! j) = int j + 1"
proof -
  have "map te_id (tes st) ! j = map (\<lambda>k. int k + 1) [0..<length (tes st)] ! j"
    using assms(1) by (simp add: llg_inv_def)
  then show ?thesis using assms(2) by simp
qed

lemma llg_inv_id_unique:
  assumes "llg_inv st" and "te \<in> set (tes st)"
  shows "1 \<le> te_id te \<and> te_id te \<le> int (length (tes st)) \<and> tes st ! nat (te_id te - 1) = te"
proof -
  from assms(2) obtain j where j: "j < length (tes st)" "tes st ! j = te"
    by (auto simp: in_set_conv_nth)
  from llg_inv_ids [OF assms(1) j(1)] j(2) have "te_id te = int j + 1" by simp
  with j show ?thesis by simp
qed

text \<open>An active record of ListGenome is the record of the TE with that id in \<^verbatim>\<open>tes\<close>.\<close>

lemma same_state_lookup:
  assumes same: "same_state sl sll" and inv: "llg_inv sll"
    and te: "map_of (active_TEs sl) k = Some (s, l)"
  shows "1 \<le> k \<and> k \<le> int (length (tes sll)) \<and> te_pos (tes sll ! nat (k - 1)) = s
       \<and> te_length (tes sll ! nat (k - 1)) = l \<and> te_status (tes sll ! nat (k - 1)) = active"
proof -
  have "(k, (s, l)) \<in> set (llg_active_records sll)"
    using te same by (auto simp: same_state_def dest: map_of_SomeD)
  then obtain t where t: "t \<in> set (tes sll)" "te_status t = active" "te_id t = k"
      "te_pos t = s" "te_length t = l"
    by (auto simp: llg_active_records_def)
  from llg_inv_id_unique [OF inv t(1)] t show ?thesis by auto
qed

text \<open>Marking the TE at index \<open>j\<close> inactive takes its id out of the active records.\<close>

lemma llg_active_records_status:
  assumes inv: "llg_inv st" and j: "j < length (tes st)"
  shows "llg_active_records (st\<lparr>ll_genome := g, tes := (tes st)[j := (tes st ! j)\<lparr>te_status := inactive\<rparr>]\<rparr>)
           = AList.delete (int j + 1) (llg_active_records st)"
proof -
  let ?k = "int j + 1"
  let ?upd = "\<lambda>t. if te_id t = ?k then t\<lparr>te_status := inactive\<rparr> else t"
  have "(tes st)[j := (tes st ! j)\<lparr>te_status := inactive\<rparr>] = map ?upd (tes st)"
  proof (rule nth_equalityI)
    show "length ((tes st)[j := (tes st ! j)\<lparr>te_status := inactive\<rparr>]) = length (map ?upd (tes st))"
      by simp
  next
    fix i assume "i < length ((tes st)[j := (tes st ! j)\<lparr>te_status := inactive\<rparr>])"
    then have i: "i < length (tes st)" by simp
    from llg_inv_ids [OF inv i] have "te_id (tes st ! i) = ?k \<longleftrightarrow> i = j" by auto
    with i j show "(tes st)[j := (tes st ! j)\<lparr>te_status := inactive\<rparr>] ! i = map ?upd (tes st) ! i"
      by (auto simp: nth_list_update)
  qed
  moreover have "map (\<lambda>te. (te_id te, (te_pos te, te_length te)))
                   (filter (\<lambda>te. te_status te = active) (map ?upd ts))
               = filter (\<lambda>(k', _). ?k \<noteq> k')
                   (map (\<lambda>te. (te_id te, (te_pos te, te_length te)))
                      (filter (\<lambda>te. te_status te = active) ts))" for ts
    by (induction ts) auto
  ultimately show ?thesis by (simp add: llg_active_records_def AList.delete_eq)
qed

lemma same_symbol_x [simp]:
  "same_symbol (CHR ''x'', k) (y\<lparr>symbol := CHR ''x''\<rparr>)"
  "same_symbol (CHR ''x'', k) \<lparr>symbol = CHR ''x'', nid = i\<rparr>"
  by (simp_all add: same_symbol_def)

lemma same_state_disable:
  assumes same: "same_state sl sll" and invl: "lg_inv sl" and invll: "llg_inv sll"
    and te: "map_of (active_TEs sl) k = Some (s, l)"
  shows "fst (lg_disable_te k sl) = Inr () \<and> fst (llg_disable_te k sll) = Inr ()
       \<and> same_state (snd (lg_disable_te k sl)) (snd (llg_disable_te k sll))"
proof -
  from same_state_lookup [OF same invll te]
  have k: "1 \<le> k" "k \<le> int (length (tes sll))" and pos: "te_pos (tes sll ! nat (k - 1)) = s"
    and len: "te_length (tes sll ! nat (k - 1)) = l" by simp_all
  let ?j = "nat (k - 1)"
  have j: "?j < length (tes sll)" "int ?j + 1 = k" using k by simp_all
  have norm: "py_norm (length (tes sll)) (k - 1) = Some ?j" using k by (simp add: py_norm_def)
  from lg_inv_active_bounds [OF invl te]
  have rng: "\<forall>n \<in> set (py_range s (s + l)). 0 \<le> n \<and> n < int (length (genome sl))"
    by (auto simp: set_py_range)
  have rel: "list_all2 same_symbol (genome sl) (ll_genome sll)" using same by (simp add: same_state_def)
  from for_each_joint [where body' = "set_symbol_at_index (CHR ''x'')" and P = same_symbol
      and v = "(CHR ''x'', k)", OF set_symbol_at_index_nonneg same_symbol_x(1) rel rng]
  obtain h h' where h: "for_each (py_setitem (CHR ''x'', k)) (py_range s (s + l)) (genome sl) = (Inr (), h)"
    "for_each (set_symbol_at_index (CHR ''x'')) (py_range s (s + l)) (ll_genome sll) = (Inr (), h')"
    "list_all2 same_symbol h h'" by blast
  have mem: "k \<in> fst ` set (active_TEs sl)" using te by (metis domI dom_map_of_conv_image_fst)
  have L: "lg_disable_te k sl =
      (Inr (), sl\<lparr>genome := h, inactive_TEs := AList.update k (s, l) (inactive_TEs sl),
                   active_TEs := AList.delete k (active_TEs sl)\<rparr>)"
    using te h(1) mem by (simp add: lg_disable_te_def)
  have LL: "llg_disable_te k sll =
      (Inr (), sll\<lparr>ll_genome := h', tes := (tes sll)[?j := (tes sll ! ?j)\<lparr>te_status := inactive\<rparr>]\<rparr>)"
    using norm pos len h(2) by (simp add: llg_disable_te_def Let_def)
  have recs: "AList.delete k (active_TEs sl)
      = llg_active_records (sll\<lparr>ll_genome := h', tes := (tes sll)[?j := (tes sll ! ?j)\<lparr>te_status := inactive\<rparr>]\<rparr>)"
    using llg_active_records_status [OF invll j(1), of h'] same j(2) by (simp add: same_state_def)
  show ?thesis using h(3) recs same by (simp add: L LL same_state_def)
qed

lemma list_all2_replicate: "P x y \<Longrightarrow> list_all2 P (replicate n x) (replicate n y)"
  by (induction n) auto

lemma llg_active_records_splice:
  "llg_active_records (llg_splice p len st1)
     = map (shift_entry p len) (llg_active_records st1 @ [(int (length (tes st1)) + 1, (p, len))])"
proof -
  have a: "filter (\<lambda>te. te_status te = active) (map (shift_te p len) ts)
         = map (shift_te p len) (filter (\<lambda>te. te_status te = active) ts)" for ts
    by (induction ts) (auto simp: shift_te_def)
  have b: "(\<lambda>te. (te_id te, (te_pos te, te_length te))) (shift_te p len t)
         = shift_entry p len ((\<lambda>te. (te_id te, (te_pos te, te_length te))) t)" for t
    by (simp add: shift_te_def shift_entry_def)
  have c: "map (\<lambda>te. (te_id te, (te_pos te, te_length te))) (map (shift_te p len) ts)
         = map (shift_entry p len) (map (\<lambda>te. (te_id te, (te_pos te, te_length te))) ts)" for ts
    using b by (induction ts) auto
  show ?thesis
    unfolding llg_active_records_def llg_splice_def
    by (simp add: a c del: map_map) (simp add: shift_te_def shift_entry_def)
qed

lemma same_state_splice:
  assumes rel: "list_all2 same_symbol (genome st2) (ll_genome st1)"
    and recs: "active_TEs st2 = llg_active_records st1"
    and fresh: "c + 1 \<notin> fst ` set (active_TEs st2)"
    and cnt: "int (length (tes st1)) = c" and n2: "number_of_TEs st2 = c + 1"
    and rng: "0 \<le> p" "p < int (length (genome st2))"
  shows "same_state (lg_splice (c + 1) p len st2) (llg_splice p len st1)"
proof -
  have g: "genome (lg_splice (c + 1) p len st2)
         = take (nat p) (genome st2) @ replicate (nat len) (CHR ''A'', c + 1) @ drop (nat p) (genome st2)"
    using rng by (simp add: lg_splice_def py_slice_insert_nonneg)
  have g': "ll_genome (llg_splice p len st1)
         = take (nat p) (ll_genome st1) @ replicate (nat len) \<lparr>symbol = CHR ''A'', nid = Some (c + 1)\<rparr>
           @ drop (nat p) (ll_genome st1)"
    using cnt by (simp add: llg_splice_def)
  have "same_symbol (CHR ''A'', c + 1) \<lparr>symbol = CHR ''A'', nid = Some (c + 1)\<rparr>"
    by (simp add: same_symbol_def)
  then have 1: "list_all2 same_symbol (genome (lg_splice (c + 1) p len st2)) (ll_genome (llg_splice p len st1))"
    unfolding g g' using rel
    by (intro list_all2_appendI list_all2_takeI list_all2_dropI list_all2_replicate)
  have 2: "number_of_TEs (lg_splice (c + 1) p len st2) = int (length (tes (llg_splice p len st1)))"
    using n2 cnt by (simp add: lg_splice_def llg_splice_def)
  have 3: "active_TEs (lg_splice (c + 1) p len st2) = llg_active_records (llg_splice p len st1)"
    using recs cnt update_fresh [OF fresh, of "(p, len)"]
    by (simp add: llg_active_records_splice lg_splice_def)
  from 1 2 3 show ?thesis by (simp add: same_state_def)
qed

lemma same_state_collision_step:
  assumes same: "same_state sl sll" and invl: "lg_inv sl" and invll: "llg_inv sll"
    and rng: "0 \<le> p" "p < int (length (genome sl))"
  shows "\<exists>st2 st1. lg_collision_step p sl = (Inr (), st2) \<and> llg_collision_step p sll = (Inr (), st1)
           \<and> list_all2 same_symbol (genome st2) (ll_genome st1)
           \<and> active_TEs st2 = llg_active_records st1"
proof -
  let ?sl1 = "sl\<lparr>number_of_TEs := number_of_TEs sl + 1\<rparr>"
  have rel: "list_all2 same_symbol (genome sl) (ll_genome sll)" using same by (simp add: same_state_def)
  then have n: "length (ll_genome sll) = length (genome sl)" by (simp add: list_all2_lengthD)
  have plt: "nat p < length (genome sl)" using rng by simp
  have at_p: "same_symbol (genome sl ! nat p) (ll_genome sll ! nat p)"
    using rel plt by (rule list_all2_nthD)
  have get: "py_getitem (genome ?sl1) p = Inr (genome sl ! nat p)" using rng by (simp add: py_getitem_nonneg)
  have get': "get_element_at_index (ll_genome sll) p = Inr (ll_genome sll ! nat p)"
    using rng n by (simp add: get_element_at_index_def get_link_at_index_eq)
  show ?thesis
  proof (cases "fst (genome sl ! nat p) = CHR ''A''")
    case False
    then have "symbol (ll_genome sll ! nat p) \<noteq> CHR ''A''" using at_p by (simp add: same_symbol_def)
    with False get get' have "lg_collision_step p sl = (Inr (), ?sl1)"
      "llg_collision_step p sll = (Inr (), sll)"
      by (simp_all add: lg_collision_step_def llg_collision_step_def Let_def)
    with same show ?thesis by (simp add: same_state_def)
  next
    case True
    let ?k = "snd (genome sl ! nat p)" and ?nuc = "ll_genome sll ! nat p"
    from True at_p have sym: "symbol ?nuc = CHR ''A''" and nid: "nid ?nuc = Some ?k"
      by (simp_all add: same_symbol_def)
    from invl have wf: "lg_wf (genome sl) (map_of (active_TEs sl)) (number_of_TEs sl)"
      by (simp add: lg_inv_def)
    with plt True obtain s l where te: "map_of (active_TEs sl) ?k = Some (s, l)"
      unfolding lg_wf_def by blast
    from same_state_lookup [OF same invll te]
    have k: "1 \<le> ?k" "?k \<le> int (length (tes sll))" and pos: "te_pos (tes sll ! nat (?k - 1)) = s"
      and len: "te_length (tes sll ! nat (?k - 1)) = l" by simp_all
    let ?j = "nat (?k - 1)"
    have j: "?j < length (tes sll)" "int ?j + 1 = ?k" using k by simp_all
    have norm: "py_norm (length (tes sll)) (?k - 1) = Some ?j" using k by (simp add: py_norm_def)
    from lg_inv_active_bounds [OF invl te]
    have r: "\<forall>n \<in> set (py_range s (s + l)). 0 \<le> n \<and> n < int (length (genome sl))"
      by (auto simp: set_py_range)
    from for_each_joint [where body' = "set_at_index \<lparr>symbol = CHR ''x'', nid = Some ?k\<rparr>"
        and P = same_symbol and v = "(CHR ''x'', ?k)", OF set_at_index_nonneg same_symbol_x(2) rel r]
    obtain h h' where h:
      "for_each (py_setitem (CHR ''x'', ?k)) (py_range s (s + l)) (genome sl) = (Inr (), h)"
      "for_each (set_at_index \<lparr>symbol = CHR ''x'', nid = Some ?k\<rparr>) (py_range s (s + l)) (ll_genome sll)
         = (Inr (), h')"
      "list_all2 same_symbol h h'" by blast
    have mem: "?k \<in> fst ` set (active_TEs sl)" using te by (metis domI dom_map_of_conv_image_fst)
    have L: "lg_collision_step p sl =
        (Inr (), ?sl1\<lparr>genome := h, inactive_TEs := AList.update ?k (s, l) (inactive_TEs sl),
                       active_TEs := AList.delete ?k (active_TEs sl)\<rparr>)"
      using get True te h(1) mem by (simp add: lg_collision_step_def Let_def lg_disable_te_def)
    have LL: "llg_collision_step p sll =
        (Inr (), sll\<lparr>ll_genome := h', tes := (tes sll)[?j := (tes sll ! ?j)\<lparr>te_status := inactive\<rparr>]\<rparr>)"
      using get' sym nid norm pos len h(2)
      by (simp add: llg_collision_step_def llg_collide_def Let_def)
    have recs: "AList.delete ?k (active_TEs sl)
        = llg_active_records (sll\<lparr>ll_genome := h', tes := (tes sll)[?j := (tes sll ! ?j)\<lparr>te_status := inactive\<rparr>]\<rparr>)"
      using llg_active_records_status [OF invll j(1), of h'] same j(2) by (simp add: same_state_def)
    show ?thesis using h(3) recs by (simp add: L LL)
  qed
qed

lemma same_state_insert:
  assumes same: "same_state sl sll" and invl: "lg_inv sl" and invll: "llg_inv sll"
    and rng: "0 \<le> p" "p < int (length (genome sl))" and len: "1 \<le> len"
  shows "fst (lg_insert_te p len sl) = Inr (number_of_TEs sl + 1)
       \<and> fst (llg_insert_te p len sll) = Inr (number_of_TEs sl + 1)
       \<and> same_state (snd (lg_insert_te p len sl)) (snd (llg_insert_te p len sll))"
proof -
  let ?c = "number_of_TEs sl"
  from same_state_collision_step [OF same invl invll rng] obtain st2 st1 where
    L: "lg_collision_step p sl = (Inr (), st2)" and LL: "llg_collision_step p sll = (Inr (), st1)"
    and rel: "list_all2 same_symbol (genome st2) (ll_genome st1)"
    and recs: "active_TEs st2 = llg_active_records st1" by blast
  from lg_collision_step_valid [OF invl rng] L have
    l2: "length (genome st2) = length (genome sl)" and n2: "number_of_TEs st2 = ?c + 1"
    and d2: "distinct (map fst (active_TEs st2))"
    and wf2: "lg_wf (genome st2) (map_of (active_TEs st2)) ?c" by auto
  have fresh: "?c + 1 \<notin> fst ` set (active_TEs st2)"
  proof
    assume "?c + 1 \<in> fst ` set (active_TEs st2)"
    then obtain v where "(?c + 1, v) \<in> set (active_TEs st2)" by auto
    with d2 have "map_of (active_TEs st2) (?c + 1) = Some v" by (rule map_of_is_SomeI)
    with wf2 have "?c + 1 \<le> ?c" unfolding lg_wf_def by (cases v) blast
    then show False by simp
  qed
  have cnt: "int (length (tes st1)) = ?c"
    using llg_collision_step_lengths [OF LL] same by (simp add: same_state_def)
  have rng2: "0 \<le> p" "p < int (length (genome st2))" using rng l2 by simp_all
  have "same_state (lg_splice (?c + 1) p len st2) (llg_splice p len st1)"
    using rel recs fresh cnt n2 rng2 by (rule same_state_splice)
  moreover have "int (length (tes sll)) = ?c" using same by (simp add: same_state_def)
  ultimately show ?thesis using L LL len by (simp add: lg_insert_te_split llg_insert_te_split)
qed

lemma same_state_copy:
  assumes same: "same_state sl sll" and invl: "lg_inv sl" and invll: "llg_inv sll"
    and te: "map_of (active_TEs sl) k = Some (s, l)"
  shows "fst (lg_copy_te k offset sl) = fst (llg_copy_te k offset sll)
       \<and> same_state (snd (lg_copy_te k offset sl)) (snd (llg_copy_te k offset sll))"
proof -
  from same_state_lookup [OF same invll te]
  have k: "1 \<le> k" "k \<le> int (length (tes sll))" and pos: "te_pos (tes sll ! nat (k - 1)) = s"
    and len: "te_length (tes sll ! nat (k - 1)) = l"
    and act: "te_status (tes sll ! nat (k - 1)) = active" by simp_all
  have get: "py_getitem (tes sll) (k - 1) = Inr (tes sll ! nat (k - 1))"
    using k by (simp add: py_getitem_def py_norm_def)
  have n: "length (ll_genome sll) = length (genome sl)"
    using same by (auto simp: same_state_def dest: list_all2_lengthD)
  note a = lg_copy_te_active [OF invl te]
  let ?p = "(s + offset) mod int (length (genome sl))"
  from same_state_insert [OF same invl invll a(2) [of offset] a(3) [of offset] a(4)]
  have ins: "fst (lg_insert_te ?p l sl) = Inr (number_of_TEs sl + 1)"
    "fst (llg_insert_te ?p l sll) = Inr (number_of_TEs sl + 1)"
    "same_state (snd (lg_insert_te ?p l sl)) (snd (llg_insert_te ?p l sll))" by simp_all
  have L: "lg_copy_te k offset sl = (Inr (Some (number_of_TEs sl + 1)), snd (lg_insert_te ?p l sl))"
    using ins(1) by (cases "lg_insert_te ?p l sl") (simp add: a(5))
  have LL: "llg_copy_te k offset sll = (Inr (Some (number_of_TEs sl + 1)), snd (llg_insert_te ?p l sll))"
    using ins(2) get act pos len n a(1)
    by (cases "llg_insert_te ?p l sll") (simp add: llg_copy_te_def add.commute)
  show ?thesis using ins(3) by (simp add: L LL)
qed

lemma list_all2_map_eq:
  "list_all2 R xs ys \<Longrightarrow> (\<And>x y. R x y \<Longrightarrow> f x = g y) \<Longrightarrow> map f xs = map g ys"
  by (induction rule: list_all2_induct) auto

lemma fst_ret_cong:
  "fst r = fst r' \<Longrightarrow> fst (ret_int r) = fst (ret_int r')"
  "fst q = fst q' \<Longrightarrow> fst (ret_opt q) = fst (ret_opt q')"
  "fst u = fst u' \<Longrightarrow> fst (ret_unit u) = fst (ret_unit u')"
  by (auto simp: ret_int_def ret_opt_def ret_unit_def split: prod.splits sum.splits option.splits)

lemma same_state_observations:
  assumes "same_state sl sll"
  shows "lg_len sl = llg_len sll" and "lg_str sl = llg_str sll" and "lg_active_tes sl = llg_active_tes sll"
proof -
  have rel: "list_all2 same_symbol (genome sl) (ll_genome sll)" using assms by (simp add: same_state_def)
  then show "lg_len sl = llg_len sll" by (simp add: lg_len_def llg_len_def list_all2_lengthD)
  have "map fst (genome sl) = map symbol (ll_genome sll)"
    using rel by (rule list_all2_map_eq) (simp add: same_symbol_def)
  then show "lg_str sl = llg_str sll" by (simp add: lg_str_def llg_str_def)
  show "lg_active_tes sl = llg_active_tes sll"
    using assms by (simp add: same_state_def lg_active_tes_def llg_active_tes_def llg_active_records_def comp_def)
qed

lemma same_state_call:
  assumes same: "same_state sl sll" and invl: "lg_inv sl" and invll: "llg_inv sll"
    and pre: "lg_pre_active c sl"
  shows "fst (lg_call c sl) = fst (llg_call c sll)
       \<and> same_state (snd (lg_call c sl)) (snd (llg_call c sll))"
proof (cases c)
  case (Insert_te p len)
  with pre same_state_insert [OF same invl invll, of p len]
  have "fst (lg_insert_te p len sl) = fst (llg_insert_te p len sll)"
    and "same_state (snd (lg_insert_te p len sl)) (snd (llg_insert_te p len sll))" by simp_all
  with Insert_te fst_ret_cong(1) [of "lg_insert_te p len sl" "llg_insert_te p len sll"]
  show ?thesis by simp
next
  case (Copy_te te offset)
  with pre obtain s l where "map_of (active_TEs sl) te = Some (s, l)"
    by (auto dest!: weak_map_of_SomeI)
  from same_state_copy [OF same invl invll this, of offset] Copy_te
    fst_ret_cong(2) [of "lg_copy_te te offset sl" "llg_copy_te te offset sll"]
  show ?thesis by simp
next
  case (Disable_te te)
  with pre obtain s l where "map_of (active_TEs sl) te = Some (s, l)"
    by (auto dest!: weak_map_of_SomeI)
  from same_state_disable [OF same invl invll this]
  have "fst (lg_disable_te te sl) = fst (llg_disable_te te sll)"
    and "same_state (snd (lg_disable_te te sl)) (snd (llg_disable_te te sll))" by simp_all
  with Disable_te fst_ret_cong(3) [of "lg_disable_te te sl" "llg_disable_te te sll"]
  show ?thesis by simp
next
  case Active_tes
  with same same_state_observations [OF same] show ?thesis by simp
next
  case Len
  with same same_state_observations [OF same] show ?thesis by simp
next
  case Str
  with same same_state_observations [OF same] show ?thesis by simp
qed

lemma lg_pre_active_pre: "lg_pre_active c st \<Longrightarrow> lg_pre c st"
  by (cases c) auto

lemma same_state_run:
  "same_state sl sll \<Longrightarrow> lg_inv sl \<Longrightarrow> llg_inv sll \<Longrightarrow> lg_valid_active cs sl \<Longrightarrow>
     fst (lg_run cs sl) = fst (llg_run cs sll)
     \<and> same_state (snd (lg_run cs sl)) (snd (llg_run cs sll))"
proof (induction cs arbitrary: sl sll)
  case Nil
  then show ?case by simp
next
  case (Cons c cs)
  from Cons.prems have pre: "lg_pre_active c sl" and rest: "lg_valid_active cs (snd (lg_call c sl))"
    by simp_all
  from same_state_call [OF Cons.prems(1-3) pre]
  have r: "fst (lg_call c sl) = fst (llg_call c sll)"
    and s: "same_state (snd (lg_call c sl)) (snd (llg_call c sll))" by simp_all
  have il: "lg_inv (snd (lg_call c sl))" using Cons.prems(2) lg_pre_active_pre [OF pre] by (rule lg_call_inv)
  have ill: "llg_inv (snd (llg_call c sll))" using Cons.prems(3) by (rule llg_call_inv)
  from Cons.IH [OF s il ill rest] r show ?case
    by (cases "lg_call c sl"; cases "llg_call c sll";
        cases "lg_run cs (snd (lg_call c sl))"; cases "llg_run cs (snd (llg_call c sll))") simp
qed

lemma same_state_init: "same_state (lg_init n) (llg_init n)"
  by (simp add: same_state_def lg_init_def llg_init_def llg_active_records_def
      list_all2_replicate same_symbol_def)

text \<open>
  On every sequence of valid calls in which \<^verbatim>\<open>copy_te\<close> and \<^verbatim>\<open>disable_te\<close> name active TEs
  only, the two classes, started with the same length, return the same values, raise in
  the same calls, and end with the same length, string and list of active TEs.
\<close>

lemma realizations_agree_on_active_calls:
  assumes "lg_valid_active cs (lg_init n)"
  shows "fst (lg_run cs (lg_init n)) = fst (llg_run cs (llg_init n))"
    and "lg_len (snd (lg_run cs (lg_init n))) = llg_len (snd (llg_run cs (llg_init n)))"
    and "lg_str (snd (lg_run cs (lg_init n))) = llg_str (snd (llg_run cs (llg_init n)))"
    and "lg_active_tes (snd (lg_run cs (lg_init n))) = llg_active_tes (snd (llg_run cs (llg_init n)))"
proof -
  from same_state_run [OF same_state_init lg_init_inv llg_init_inv assms]
  have r: "fst (lg_run cs (lg_init n)) = fst (llg_run cs (llg_init n))"
    and s: "same_state (snd (lg_run cs (lg_init n))) (snd (llg_run cs (llg_init n)))" by simp_all
  show "fst (lg_run cs (lg_init n)) = fst (llg_run cs (llg_init n))" by fact
  from same_state_observations [OF s]
  show "lg_len (snd (lg_run cs (lg_init n))) = llg_len (snd (llg_run cs (llg_init n)))"
    "lg_str (snd (lg_run cs (lg_init n))) = llg_str (snd (llg_run cs (llg_init n)))"
    "lg_active_tes (snd (lg_run cs (lg_init n))) = llg_active_tes (snd (llg_run cs (llg_init n)))"
    by simp_all
qed

section \<open>disable_te called twice\<close>

lemma for_each_set_symbol:
  assumes "\<forall>n \<in> set ns. 0 \<le> n \<and> n < int (length g)"
  shows "\<exists>g'. for_each (set_symbol_at_index c) ns g = (Inr (), g') \<and> length g' = length g \<and>
           (\<forall>i < length g. g' ! i = (if int i \<in> set ns then (g ! i)\<lparr>symbol := c\<rparr> else g ! i))"
  using assms
proof (induction ns arbitrary: g)
  case Nil
  then show ?case by simp
next
  case (Cons n ns)
  let ?g1 = "g[nat n := (g ! nat n)\<lparr>symbol := c\<rparr>]"
  have n: "0 \<le> n" "n < int (length g)" using Cons.prems by simp_all
  have step: "set_symbol_at_index c n g = Inr ?g1"
    using n by (simp add: set_symbol_at_index_def get_link_at_index_eq)
  have "\<forall>m \<in> set ns. 0 \<le> m \<and> m < int (length ?g1)" using Cons.prems by simp
  from Cons.IH [OF this] obtain g' where g':
    "for_each (set_symbol_at_index c) ns ?g1 = (Inr (), g')" "length g' = length g"
    "\<forall>i < length g. g' ! i = (if int i \<in> set ns then (?g1 ! i)\<lparr>symbol := c\<rparr> else ?g1 ! i)" by auto
  have "\<forall>i < length g. g' ! i = (if int i \<in> set (n # ns) then (g ! i)\<lparr>symbol := c\<rparr> else g ! i)"
  proof (intro allI impI)
    fix i assume i: "i < length g"
    show "g' ! i = (if int i \<in> set (n # ns) then (g ! i)\<lparr>symbol := c\<rparr> else g ! i)"
    proof (cases "int i = n")
      case True
      then have "nat n = i" by simp
      with g'(3) i True show ?thesis by simp
    next
      case False
      then have "nat n \<noteq> i" using n by auto
      with g'(3) i False show ?thesis by simp
    qed
  qed
  with g'(1,2) step show ?case by simp
qed

text \<open>
  Calling \<^verbatim>\<open>disable_te\<close> twice leaves the state that one call leaves, in both classes (in
  every reachable state); what differs from a no-op is the second call itself: in
  ListGenome it raises KeyError whenever the first one succeeded.
\<close>

lemma lg_disable_te_twice:
  "snd (lg_disable_te te (snd (lg_disable_te te st))) = snd (lg_disable_te te st)
   \<and> (fst (lg_disable_te te st) = Inr () \<longrightarrow>
        fst (lg_disable_te te (snd (lg_disable_te te st))) = Inl KeyError)"
proof (cases "map_of (active_TEs st) te")
  case None
  then show ?thesis by (simp add: lg_disable_te_def)
next
  case (Some r)
  obtain s l where r: "r = (s, l)" by (cases r)
  obtain e g where loop: "for_each (py_setitem (CHR ''x'', te)) (py_range s (s + l)) (genome st) = (e, g)"
    by force
  have mem: "te \<in> fst ` set (active_TEs st)" using Some by (metis domI dom_map_of_conv_image_fst)
  show ?thesis
  proof (cases e)
    case (Inl err)
    have first: "lg_disable_te te st = (Inl err, st\<lparr>genome := g\<rparr>)"
      using Some r loop Inl by (simp add: lg_disable_te_def)
    have again: "for_each (py_setitem (CHR ''x'', te)) ns g1 = (Inl err1, g2) \<Longrightarrow>
                   for_each (py_setitem (CHR ''x'', te)) ns g2 = (Inl err1, g2)" for ns g1 err1 g2
    proof (induction ns arbitrary: g1)
      case Nil
      then show ?case by simp
    next
      case (Cons n ns)
      show ?case
      proof (cases "py_setitem (CHR ''x'', te) n g1")
        case (Inl e1)
        with Cons.prems show ?thesis by auto
      next
        case (Inr g1')
        with Cons.prems have rest: "for_each (py_setitem (CHR ''x'', te)) ns g1' = (Inl err1, g2)" by simp
        have l1: "length g1' = length g1" using Inr by (auto dest: py_setitem_Inr)
        have l2: "length g2 = length g1'" using rest by (rule for_each_py_setitem_length)
        from Inr obtain k where k: "py_norm (length g1) n = Some k" "g1' = g1[k := (CHR ''x'', te)]"
          by (auto simp: py_setitem_def split: option.splits)
        have klt: "k < length g1" using k(1) by (rule py_norm_Some)
        have keep: "for_each (py_setitem (CHR ''x'', te)) ms h = (res, h') \<Longrightarrow> j < length h \<Longrightarrow>
                      h ! j = (CHR ''x'', te) \<Longrightarrow> h' ! j = (CHR ''x'', te)" for ms h res h' j
        proof (induction ms arbitrary: h)
          case Nil
          then show ?case by simp
        next
          case (Cons m ms)
          show ?case
          proof (cases "py_setitem (CHR ''x'', te) m h")
            case (Inl e2)
            with Cons.prems show ?thesis by simp
          next
            case (Inr h1)
            then obtain k' where "k' < length h" "h1 = h[k' := (CHR ''x'', te)]"
              by (auto dest: py_setitem_Inr)
            then have "j < length h1" "h1 ! j = (CHR ''x'', te)"
              using Cons.prems(2,3) by (auto simp: nth_list_update)
            moreover have "for_each (py_setitem (CHR ''x'', te)) ms h1 = (res, h')"
              using Cons.prems(1) Inr by simp
            ultimately show ?thesis using Cons.IH by blast
          qed
        qed
        have "g1' ! k = (CHR ''x'', te)" using k(2) klt by simp
        from keep [OF rest _ this] klt l1 have "g2 ! k = (CHR ''x'', te)" by simp
        then have "g2[k := (CHR ''x'', te)] = g2" by (metis list_update_id)
        then have "py_setitem (CHR ''x'', te) n g2 = Inr g2"
          using k(1) l1 l2 by (simp add: py_setitem_def)
        moreover have "for_each (py_setitem (CHR ''x'', te)) ns g2 = (Inl err1, g2)"
          using Cons.IH [OF rest] .
        ultimately show ?thesis by simp
      qed
    qed
    from again [OF loop [unfolded Inl]]
    have "lg_disable_te te (st\<lparr>genome := g\<rparr>) = (Inl err, st\<lparr>genome := g\<rparr>)"
      using Some r by (simp add: lg_disable_te_def)
    with first show ?thesis by simp
  next
    case (Inr u)
    have first: "lg_disable_te te st =
        (Inr (), st\<lparr>genome := g, inactive_TEs := AList.update te (s, l) (inactive_TEs st),
                     active_TEs := AList.delete te (active_TEs st)\<rparr>)"
      using Some r loop Inr mem by (simp add: lg_disable_te_def)
    let ?st1 = "st\<lparr>genome := g, inactive_TEs := AList.update te (s, l) (inactive_TEs st),
                     active_TEs := AList.delete te (active_TEs st)\<rparr>"
    have "map_of (active_TEs ?st1) te = None" by (simp add: delete_conv')
    then have "lg_disable_te te ?st1 = (Inl KeyError, ?st1)" by (rule lg_disable_te_not_active)
    then show ?thesis by (simp add: first)
  qed
qed

lemma llg_disable_te_twice:
  assumes "llg_reachable st"
  shows "llg_disable_te te (snd (llg_disable_te te st)) = llg_disable_te te st"
proof (cases "py_norm (length (tes st)) (te - 1)")
  case None
  then show ?thesis by (simp add: llg_disable_te_def)
next
  case (Some k)
  have inv: "llg_inv st" using assms by (rule llg_reachable_inv)
  let ?t = "tes st ! k"
  let ?ns = "py_range (te_pos ?t) (te_pos ?t + te_length ?t)"
  have klt: "k < length (tes st)" using Some by (rule py_norm_Some)
  then have ok: "te_ok (length (ll_genome st)) ?t"
    using inv by (simp add: llg_inv_def list_all_length)
  then have rng: "\<forall>n \<in> set ?ns. 0 \<le> n \<and> n < int (length (ll_genome st))"
    by (auto simp: set_py_range te_ok_def)
  from for_each_set_symbol [OF rng, of "CHR ''x''"] obtain g' where g':
    "for_each (set_symbol_at_index (CHR ''x'')) ?ns (ll_genome st) = (Inr (), g')"
    "length g' = length (ll_genome st)"
    "\<forall>i < length (ll_genome st). g' ! i =
        (if int i \<in> set ?ns then (ll_genome st ! i)\<lparr>symbol := CHR ''x''\<rparr> else ll_genome st ! i)"
    by blast
  let ?st1 = "st\<lparr>ll_genome := g', tes := (tes st)[k := ?t\<lparr>te_status := inactive\<rparr>]\<rparr>"
  have first: "llg_disable_te te st = (Inr (), ?st1)"
    using Some g'(1) by (simp add: llg_disable_te_def Let_def)
  have rng': "\<forall>n \<in> set ?ns. 0 \<le> n \<and> n < int (length g')" using rng g'(2) by simp
  from for_each_set_symbol [OF rng', of "CHR ''x''"] obtain g'' where g'':
    "for_each (set_symbol_at_index (CHR ''x'')) ?ns g' = (Inr (), g'')"
    "length g'' = length g'"
    "\<forall>i < length g'. g'' ! i = (if int i \<in> set ?ns then (g' ! i)\<lparr>symbol := CHR ''x''\<rparr> else g' ! i)"
    by blast
  have same: "g'' = g'"
  proof (rule nth_equalityI)
    show "length g'' = length g'" by fact
  next
    fix i assume "i < length g''"
    then have i: "i < length g'" "i < length (ll_genome st)" using g''(2) g'(2) by simp_all
    show "g'' ! i = g' ! i" using g''(3) g'(3) i by simp
  qed
  have t1: "tes ?st1 ! k = ?t\<lparr>te_status := inactive\<rparr>" using klt by simp
  have "llg_disable_te te ?st1 = (Inr (), ?st1)"
    using Some g''(1) same klt by (simp add: llg_disable_te_def Let_def)
  with first show ?thesis by simp
qed

section \<open>The preconditions of the specification, the empty genome (C7, C9)\<close>

lemma lg_pre_spec_pre: "lg_pre c st \<Longrightarrow> lg_spec_pre c st"
  by (cases c) auto

lemma lg_spec_pre_nonempty: "lg_spec_pre c st \<Longrightarrow> genome st \<noteq> [] \<Longrightarrow> lg_pre c st"
  by (cases c) auto

lemma llg_spec_pre_nonempty: "llg_spec_pre c st \<Longrightarrow> ll_genome st \<noteq> [] \<Longrightarrow> llg_pre c st"
  by (cases c) auto

lemma lg_insert_te_empty:
  "genome st = [] \<Longrightarrow> lg_insert_te p len st = (Inl IndexError, st\<lparr>number_of_TEs := number_of_TEs st + 1\<rparr>)"
proof -
  assume "genome st = []"
  then have "py_getitem (genome st) p = Inl IndexError"
    using py_getitem_outside [of "genome st" p] by simp
  then show ?thesis by (simp add: lg_insert_te_def Let_def)
qed

lemma llg_insert_te_empty: "ll_genome st = [] \<Longrightarrow> llg_insert_te p len st = (Inl IndexError, st)"
  using llg_collision_step_outside [of p st] by (simp add: llg_insert_te_split)

lemma lg_call_empty: "genome st = [] \<Longrightarrow> genome (snd (lg_call c st)) = []"
proof (cases c)
  case (Insert_te p len)
  assume "genome st = []"
  with Insert_te show ?thesis by (simp add: lg_insert_te_empty)
next
  case (Copy_te te offset)
  assume "genome st = []"
  with Copy_te show ?thesis by (simp add: lg_copy_te_def split: option.splits)
next
  case (Disable_te te)
  assume "genome st = []"
  with Disable_te lg_disable_te_length [of te st] show ?thesis by simp
qed simp_all

lemma llg_call_empty: "ll_genome st = [] \<Longrightarrow> ll_genome (snd (llg_call c st)) = []"
proof (cases c)
  case (Insert_te p len)
  assume "ll_genome st = []"
  with Insert_te show ?thesis by (simp add: llg_insert_te_empty)
next
  case (Copy_te te offset)
  assume "ll_genome st = []"
  with Copy_te show ?thesis by (simp add: llg_copy_te_def split: sum.splits)
next
  case (Disable_te te)
  assume "ll_genome st = []"
  with Disable_te llg_disable_te_length [of te st] show ?thesis by simp
qed simp_all

lemma lg_run_empty: "genome st = [] \<Longrightarrow> genome (snd (lg_run cs st)) = []"
proof (induction cs arbitrary: st)
  case Nil
  then show ?case by simp
next
  case (Cons c cs)
  have "genome (snd (lg_call c st)) = []" using Cons.prems by (rule lg_call_empty)
  from Cons.IH [OF this] show ?case by (simp only: snd_lg_run_Cons)
qed

lemma llg_run_empty: "ll_genome st = [] \<Longrightarrow> ll_genome (snd (llg_run cs st)) = []"
proof (induction cs arbitrary: st)
  case Nil
  then show ?case by simp
next
  case (Cons c cs)
  have "ll_genome (snd (llg_call c st)) = []" using Cons.prems by (rule llg_call_empty)
  from Cons.IH [OF this] show ?case by (simp only: snd_llg_run_Cons)
qed

lemma lg_spec_valid_nonempty: "genome st \<noteq> [] \<Longrightarrow> lg_spec_valid cs st \<Longrightarrow> lg_valid cs st"
proof (induction cs arbitrary: st)
  case Nil
  then show ?case by simp
next
  case (Cons c cs)
  from Cons.prems have pre: "lg_pre c st" by (simp add: lg_spec_pre_nonempty)
  have "genome (snd (lg_call c st)) \<noteq> []"
    using lg_call_length_mono [of st c] Cons.prems(1) by auto
  with Cons.IH Cons.prems(2) pre show ?case by simp
qed

lemma llg_spec_valid_nonempty: "ll_genome st \<noteq> [] \<Longrightarrow> llg_spec_valid cs st \<Longrightarrow> llg_valid cs st"
proof (induction cs arbitrary: st)
  case Nil
  then show ?case by simp
next
  case (Cons c cs)
  from Cons.prems have pre: "llg_pre c st" by (simp add: llg_spec_pre_nonempty)
  have "ll_genome (snd (llg_call c st)) \<noteq> []"
    using llg_call_length_mono [of st c] Cons.prems(1) by auto
  with Cons.IH Cons.prems(2) pre show ?case by simp
qed

lemma lg_reachable_spec: "lg_reachable st \<Longrightarrow> lg_spec_reachable st"
  by (induction rule: lg_reachable.induct)
     (auto intro: lg_spec_reach_init lg_spec_reach_call lg_pre_spec_pre)

lemma lg_spec_reachable_cases: "lg_spec_reachable st \<Longrightarrow> lg_reachable st \<or> genome st = []"
proof (induction rule: lg_spec_reachable.induct)
  case (lg_spec_reach_init n)
  then show ?case by (simp add: lg_reach_init)
next
  case (lg_spec_reach_call st c)
  show ?case
  proof (cases "genome st = []")
    case True
    then show ?thesis by (simp add: lg_call_empty)
  next
    case False
    with lg_spec_reach_call have "lg_reachable st" "lg_pre c st"
      by (simp_all add: lg_spec_pre_nonempty)
    then show ?thesis by (simp add: lg_reach_call)
  qed
qed

text \<open>
  C7, the claim as written fails on an empty genome. The specification makes
  \<^verbatim>\<open>insert_te(0, length)\<close> the legal call there, but both classes raise IndexError (there
  is no position 0 to look at) and the length stays 0 instead of becoming \<open>0 + length\<close>.
\<close>

theorem insert_into_empty_genome_raises:
  "lg_spec_valid [Insert_te 0 1] (lg_init 0) \<and> llg_spec_valid [Insert_te 0 1] (llg_init 0)
   \<and> fst (lg_run [Insert_te 0 1] (lg_init 0)) = [Inl IndexError]
   \<and> fst (llg_run [Insert_te 0 1] (llg_init 0)) = [Inl IndexError]
   \<and> lg_len (lg_init 0) = 0 \<and> llg_len (llg_init 0) = 0
   \<and> lg_inserted_sum [Insert_te 0 1] (lg_init 0) = 1
   \<and> llg_inserted_sum [Insert_te 0 1] (llg_init 0) = 1
   \<and> lg_len (snd (lg_run [Insert_te 0 1] (lg_init 0))) = 0
   \<and> llg_len (snd (llg_run [Insert_te 0 1] (llg_init 0))) = 0
   \<and> lg_len (snd (lg_run [Insert_te 0 1] (lg_init 0)))
        \<noteq> lg_len (lg_init 0) + lg_inserted_sum [Insert_te 0 1] (lg_init 0)
   \<and> llg_len (snd (llg_run [Insert_te 0 1] (llg_init 0)))
        \<noteq> llg_len (llg_init 0) + llg_inserted_sum [Insert_te 0 1] (llg_init 0)"
  by code_simp

text \<open>
  C7, amended. For both classes, on a genome created with a length of at least 1: after
  any sequence of calls that meet the preconditions of the specification, \<^verbatim>\<open>len\<close> is the
  initial length plus the sum of the lengths inserted (every \<^verbatim>\<open>insert_te\<close> with its
  length, every \<^verbatim>\<open>copy_te\<close> that returns an id with the length of the TE copied). The
  same holds, for any initial length, when every \<^verbatim>\<open>insert_te\<close> of the sequence has its
  position inside the genome. On a genome created with length 0 (or less) the length
  stays 0 whatever is called. No call, valid or not, in any state, makes the genome
  shorter.
\<close>

theorem genome_length_is_initial_plus_inserted:
  "(0 < n \<and> lg_spec_valid cs (lg_init n) \<longrightarrow>
      lg_len (snd (lg_run cs (lg_init n))) = lg_len (lg_init n) + lg_inserted_sum cs (lg_init n))
   \<and> (0 < n \<and> llg_spec_valid cs (llg_init n) \<longrightarrow>
      llg_len (snd (llg_run cs (llg_init n))) = llg_len (llg_init n) + llg_inserted_sum cs (llg_init n))
   \<and> (lg_valid cs (lg_init n) \<longrightarrow>
      lg_len (snd (lg_run cs (lg_init n))) = lg_len (lg_init n) + lg_inserted_sum cs (lg_init n))
   \<and> (llg_valid cs (llg_init n) \<longrightarrow>
      llg_len (snd (llg_run cs (llg_init n))) = llg_len (llg_init n) + llg_inserted_sum cs (llg_init n))
   \<and> (n \<le> 0 \<longrightarrow> lg_len (snd (lg_run cs (lg_init n))) = 0
               \<and> llg_len (snd (llg_run cs (llg_init n))) = 0)
   \<and> lg_len st \<le> lg_len (snd (lg_call c st))
   \<and> llg_len st' \<le> llg_len (snd (llg_call c st'))"
proof (intro conjI impI)
  assume a: "0 < n \<and> lg_spec_valid cs (lg_init n)"
  then have "genome (lg_init n) \<noteq> []" by (simp add: lg_init_def)
  with a have "lg_valid cs (lg_init n)" by (simp add: lg_spec_valid_nonempty)
  with lg_run_length [OF lg_init_inv]
  show "lg_len (snd (lg_run cs (lg_init n))) = lg_len (lg_init n) + lg_inserted_sum cs (lg_init n)"
    by blast
next
  assume a: "0 < n \<and> llg_spec_valid cs (llg_init n)"
  then have "ll_genome (llg_init n) \<noteq> []" by (simp add: llg_init_def)
  with a have "llg_valid cs (llg_init n)" by (simp add: llg_spec_valid_nonempty)
  with llg_run_length [OF llg_init_inv]
  show "llg_len (snd (llg_run cs (llg_init n))) = llg_len (llg_init n) + llg_inserted_sum cs (llg_init n)"
    by blast
next
  assume "lg_valid cs (lg_init n)"
  with lg_run_length [OF lg_init_inv]
  show "lg_len (snd (lg_run cs (lg_init n))) = lg_len (lg_init n) + lg_inserted_sum cs (lg_init n)"
    by blast
next
  assume "llg_valid cs (llg_init n)"
  with llg_run_length [OF llg_init_inv]
  show "llg_len (snd (llg_run cs (llg_init n))) = llg_len (llg_init n) + llg_inserted_sum cs (llg_init n)"
    by blast
next
  assume n: "n \<le> 0"
  then have "genome (lg_init n) = []" by (simp add: lg_init_def)
  then have "genome (snd (lg_run cs (lg_init n))) = []" by (rule lg_run_empty)
  then show "lg_len (snd (lg_run cs (lg_init n))) = 0" by (simp add: lg_len_def)
  from n have "ll_genome (llg_init n) = []" by (simp add: llg_init_def)
  then have "ll_genome (snd (llg_run cs (llg_init n))) = []" by (rule llg_run_empty)
  then show "llg_len (snd (llg_run cs (llg_init n))) = 0" by (simp add: llg_len_def)
next
  show "lg_len st \<le> lg_len (snd (lg_call c st))"
    using lg_call_length_mono [of st c] by (simp add: lg_len_def)
  show "llg_len st' \<le> llg_len (snd (llg_call c st'))"
    using llg_call_length_mono [of st' c] by (simp add: llg_len_def)
qed

theorem genome_length_is_initial_plus_inserted_witness:
  "(let cs = [Insert_te 1 2, Copy_te 1 (- 2), Disable_te 1, Copy_te 1 0, Insert_te 0 1]
    in (0::int) < 3 \<and> lg_spec_valid cs (lg_init 3) \<and> llg_spec_valid cs (llg_init 3)
     \<and> lg_valid cs (lg_init 3) \<and> llg_valid cs (llg_init 3)
     \<and> lg_inserted_sum cs (lg_init 3) = 5 \<and> llg_inserted_sum cs (llg_init 3) = 5
     \<and> lg_len (snd (lg_run cs (lg_init 3))) = 3 + 5
     \<and> llg_len (snd (llg_run cs (llg_init 3))) = 3 + 5
     \<and> (0::int) \<le> 0
     \<and> lg_len (snd (lg_run cs (lg_init 0))) = 0
     \<and> llg_len (snd (llg_run cs (llg_init 0))) = 0)"
proof -
  let ?cs = "[Insert_te 1 2, Copy_te 1 (- 2), Disable_te 1, Copy_te 1 0, Insert_te 0 1]"
  have v: "lg_spec_valid ?cs (lg_init 3)" "llg_spec_valid ?cs (llg_init 3)"
    "lg_valid ?cs (lg_init 3)" "llg_valid ?cs (llg_init 3)" by code_simp+
  have s: "lg_inserted_sum ?cs (lg_init 3) = 5" "llg_inserted_sum ?cs (llg_init 3) = 5" by code_simp+
  have i: "lg_len (lg_init 3) = 3" "llg_len (llg_init 3) = 3" by code_simp+
  have p: "(0::int) < 3" "(0::int) \<le> 0" by simp_all
  from genome_length_is_initial_plus_inserted [of 3 ?cs] p(1) v(1,2)
  have a: "lg_len (snd (lg_run ?cs (lg_init 3))) = 3 + 5"
    "llg_len (snd (llg_run ?cs (llg_init 3))) = 3 + 5"
    unfolding s i by blast+
  from genome_length_is_initial_plus_inserted [of 0 ?cs] p(2)
  have b: "lg_len (snd (lg_run ?cs (lg_init 0))) = 0" "llg_len (snd (llg_run ?cs (llg_init 0))) = 0"
    by blast+
  show ?thesis unfolding Let_def by (intro conjI; fact)
qed

text \<open>
  C9, amended. Every \<^verbatim>\<open>insert_te(pos, length)\<close> with \<open>0 \<le> pos < len\<close> and \<open>length \<ge> 1\<close>, in a
  state reached by calls that meet the preconditions of the specification, succeeds and
  returns the next id. In LinkedListGenome it adds \<open>length\<close> to the start of every existing
  TE record, active or inactive, whose start is strictly greater than \<open>pos\<close>, and leaves
  every other start (one equal to \<open>pos\<close> too), every length and every id as they were; the
  new record (pos, length) comes last. In ListGenome the same holds for the records of
  \<^verbatim>\<open>active_TEs\<close> (\<open>shift_val\<close> adds \<open>length\<close> to a start greater than \<open>pos\<close>), from which the
  TE hit by the collision rule is taken out first; the records of \<^verbatim>\<open>inactive_TEs\<close> are not
  updated, the TE hit by the collision rule joins them with the record it had. On an empty
  genome every \<^verbatim>\<open>insert_te\<close> raises IndexError and changes no record.
\<close>

theorem insert_te_shifts_records:
  "(lg_spec_reachable st \<and> lg_pre (Insert_te p len) st \<longrightarrow>
      (let st1 = snd (lg_insert_te p len st);
           new_id = number_of_TEs st + 1;
           hit = (fst (genome st ! nat p) = CHR ''A'');
           k = snd (genome st ! nat p)
       in fst (lg_insert_te p len st) = Inr new_id
        \<and> (\<forall>t. map_of (active_TEs st1) t =
                  (if t = new_id then Some (p, len)
                   else if hit \<and> t = k then None
                   else map_option (shift_val p len) (map_of (active_TEs st) t)))
        \<and> (\<forall>t. map_of (inactive_TEs st1) t =
                  (if hit \<and> t = k then map_of (active_TEs st) k else map_of (inactive_TEs st) t))))
   \<and> (llg_reachable st' \<and> llg_pre (Insert_te p len) st' \<longrightarrow>
      (let st1 = snd (llg_insert_te p len st'); m = length (tes st')
       in fst (llg_insert_te p len st') = Inr (int m + 1)
        \<and> length (tes st1) = m + 1
        \<and> (\<forall>i < m. te_pos (tes st1 ! i) =
                       (if te_pos (tes st' ! i) > p then te_pos (tes st' ! i) + len
                        else te_pos (tes st' ! i))
                   \<and> te_length (tes st1 ! i) = te_length (tes st' ! i)
                   \<and> te_id (tes st1 ! i) = te_id (tes st' ! i))
        \<and> tes st1 ! m = \<lparr>te_id = int m + 1, te_pos = p, te_length = len, te_status = active\<rparr>))
   \<and> (genome st = [] \<longrightarrow>
        fst (lg_insert_te p len st) = Inl IndexError
      \<and> active_TEs (snd (lg_insert_te p len st)) = active_TEs st
      \<and> inactive_TEs (snd (lg_insert_te p len st)) = inactive_TEs st)
   \<and> (ll_genome st' = [] \<longrightarrow> llg_insert_te p len st' = (Inl IndexError, st'))"
proof (intro conjI impI)
  assume a: "lg_spec_reachable st \<and> lg_pre (Insert_te p len) st"
  then have "genome st \<noteq> []" by auto
  with a have "lg_reachable st \<and> lg_pre (Insert_te p len) st"
    using lg_spec_reachable_cases by blast
  with insert_te_records_shifted [of st p len st']
  show "let st1 = snd (lg_insert_te p len st);
           new_id = number_of_TEs st + 1;
           hit = (fst (genome st ! nat p) = CHR ''A'');
           k = snd (genome st ! nat p)
       in fst (lg_insert_te p len st) = Inr new_id
        \<and> (\<forall>t. map_of (active_TEs st1) t =
                  (if t = new_id then Some (p, len)
                   else if hit \<and> t = k then None
                   else map_option (shift_val p len) (map_of (active_TEs st) t)))
        \<and> (\<forall>t. map_of (inactive_TEs st1) t =
                  (if hit \<and> t = k then map_of (active_TEs st) k else map_of (inactive_TEs st) t))"
    by blast
next
  assume "llg_reachable st' \<and> llg_pre (Insert_te p len) st'"
  with insert_te_records_shifted [of st p len st']
  show "let st1 = snd (llg_insert_te p len st'); m = length (tes st')
       in fst (llg_insert_te p len st') = Inr (int m + 1)
        \<and> length (tes st1) = m + 1
        \<and> (\<forall>i < m. te_pos (tes st1 ! i) =
                       (if te_pos (tes st' ! i) > p then te_pos (tes st' ! i) + len
                        else te_pos (tes st' ! i))
                   \<and> te_length (tes st1 ! i) = te_length (tes st' ! i)
                   \<and> te_id (tes st1 ! i) = te_id (tes st' ! i))
        \<and> tes st1 ! m = \<lparr>te_id = int m + 1, te_pos = p, te_length = len, te_status = active\<rparr>"
    by blast
next
  assume "genome st = []"
  then have *: "lg_insert_te p len st = (Inl IndexError, st\<lparr>number_of_TEs := number_of_TEs st + 1\<rparr>)"
    by (rule lg_insert_te_empty)
  show "fst (lg_insert_te p len st) = Inl IndexError"
    "active_TEs (snd (lg_insert_te p len st)) = active_TEs st"
    "inactive_TEs (snd (lg_insert_te p len st)) = inactive_TEs st"
    by (simp_all add: *)
next
  assume "ll_genome st' = []"
  then show "llg_insert_te p len st' = (Inl IndexError, st')" by (rule llg_insert_te_empty)
qed

theorem insert_te_shifts_records_witness:
  "lg_spec_reachable lg_example \<and> lg_pre (Insert_te 0 2) lg_example
   \<and> map_of (active_TEs lg_example) 1 = Some (1, 1)
   \<and> map_of (active_TEs (snd (lg_insert_te 0 2 lg_example))) 1 = Some (3, 1)
   \<and> llg_reachable llg_example \<and> llg_pre (Insert_te 0 2) llg_example
   \<and> te_pos (tes llg_example ! 0) = 1
   \<and> te_pos (tes (snd (llg_insert_te 0 2 llg_example)) ! 0) = 3
   \<and> genome (lg_init 0) = [] \<and> fst (lg_insert_te 0 2 (lg_init 0)) = Inl IndexError
   \<and> ll_genome (llg_init 0) = [] \<and> llg_insert_te 0 2 (llg_init 0) = (Inl IndexError, llg_init 0)"
proof -
  have r: "lg_spec_reachable lg_example" using lg_example_reachable by (rule lg_reachable_spec)
  have pre: "lg_pre (Insert_te 0 2) lg_example" by (simp add: lg_example_def)
  have r': "llg_reachable llg_example" by (rule llg_example_reachable)
  have pre': "llg_pre (Insert_te 0 2) llg_example" by (simp add: llg_example_def)
  note inst = insert_te_shifts_records [of lg_example 0 2 llg_example, unfolded Let_def]
  from inst r pre
  have "\<forall>t. map_of (active_TEs (snd (lg_insert_te 0 2 lg_example))) t =
           (if t = number_of_TEs lg_example + 1 then Some (0, 2)
            else if fst (genome lg_example ! nat 0) = CHR ''A'' \<and> t = snd (genome lg_example ! nat 0)
            then None
            else map_option (shift_val 0 2) (map_of (active_TEs lg_example) t))"
    by blast
  then have a: "map_of (active_TEs (snd (lg_insert_te 0 2 lg_example))) 1 = Some (3, 1)"
    by (simp add: lg_example_def shift_val_def)
  from inst r' pre'
  have "\<forall>i < length (tes llg_example).
          te_pos (tes (snd (llg_insert_te 0 2 llg_example)) ! i) =
            (if te_pos (tes llg_example ! i) > 0 then te_pos (tes llg_example ! i) + 2
             else te_pos (tes llg_example ! i))
        \<and> te_length (tes (snd (llg_insert_te 0 2 llg_example)) ! i) = te_length (tes llg_example ! i)
        \<and> te_id (tes (snd (llg_insert_te 0 2 llg_example)) ! i) = te_id (tes llg_example ! i)"
    by blast
  then have b: "te_pos (tes (snd (llg_insert_te 0 2 llg_example)) ! 0) = 3"
    by (simp add: llg_example_def)
  have c: "map_of (active_TEs lg_example) 1 = Some (1, 1)" "te_pos (tes llg_example ! 0) = 1"
    by (simp_all add: lg_example_def llg_example_def)
  have e: "genome (lg_init 0) = []" "ll_genome (llg_init 0) = []"
    by (simp_all add: lg_init_def llg_init_def)
  from insert_te_shifts_records [of "lg_init 0" 0 2 "llg_init 0"] e
  have d: "fst (lg_insert_te 0 2 (lg_init 0)) = Inl IndexError"
    "llg_insert_te 0 2 (llg_init 0) = (Inl IndexError, llg_init 0)"
    by blast+
  show ?thesis by (intro conjI; fact)
qed

section \<open>Rejected calls after any history (C3)\<close>

lemma keys_delete: "fst ` set (AList.delete k al) \<subseteq> fst ` set al"
  by (auto simp: AList.delete_eq)

lemma keys_update: "fst ` set (AList.update k v al) = insert k (fst ` set al)"
  by (induction al) auto

lemma keys_shift_entry: "fst ` set (map (shift_entry p len) al) = fst ` set al"
  by (metis map_fst_shift_entry set_map)

lemma lg_disable_te_keys:
  "fst ` set (active_TEs (snd (lg_disable_te te st))) \<subseteq> fst ` set (active_TEs st)"
  using keys_delete [of te "active_TEs st"]
  by (auto simp: lg_disable_te_def split: option.splits prod.splits sum.splits)

lemma lg_collision_step_keys:
  "fst ` set (active_TEs (snd (lg_collision_step p st))) \<subseteq> fst ` set (active_TEs st)"
proof -
  have "fst ` set (active_TEs (snd (lg_disable_te te (st\<lparr>number_of_TEs := number_of_TEs st + 1\<rparr>))))
          \<subseteq> fst ` set (active_TEs st)" for te
    using lg_disable_te_keys [of te "st\<lparr>number_of_TEs := number_of_TEs st + 1\<rparr>"] by simp
  then show ?thesis
    by (simp add: lg_collision_step_def Let_def split: sum.splits)
qed

lemma lg_insert_te_keys:
  "fst ` set (active_TEs (snd (lg_insert_te p len st)))
     \<subseteq> fst ` set (active_TEs st) \<union> allocated (Insert_te p len) (fst (ret_int (lg_insert_te p len st)))"
proof (cases "lg_collision_step p st")
  case (Pair r st2)
  have k2: "fst ` set (active_TEs st2) \<subseteq> fst ` set (active_TEs st)"
    using lg_collision_step_keys [of p st] Pair by simp
  show ?thesis
  proof (cases r)
    case (Inl e)
    with Pair k2 show ?thesis by (simp add: lg_insert_te_split ret_int_def)
  next
    case (Inr u)
    let ?new = "number_of_TEs st + 1"
    have a: "active_TEs (lg_splice ?new p len st2)
           = map (shift_entry p len) (AList.update ?new (p, len) (active_TEs st2))"
      by (simp add: lg_splice_def)
    have "fst ` set (active_TEs (lg_splice ?new p len st2)) = insert ?new (fst ` set (active_TEs st2))"
      by (simp only: a keys_shift_entry keys_update)
    with Pair Inr k2 show ?thesis
      by (auto simp: lg_insert_te_split ret_int_def)
  qed
qed

lemma lg_copy_te_keys:
  "fst ` set (active_TEs (snd (lg_copy_te te offset st)))
     \<subseteq> fst ` set (active_TEs st) \<union> allocated (Copy_te te offset) (fst (ret_opt (lg_copy_te te offset st)))"
proof (cases "map_of (active_TEs st) te")
  case None
  then show ?thesis by (simp add: lg_copy_te_def)
next
  case (Some r)
  obtain s l where r: "r = (s, l)" by (cases r)
  show ?thesis
  proof (cases "length (genome st) = 0")
    case True
    with Some r show ?thesis by (simp add: lg_copy_te_def)
  next
    case False
    let ?p = "(s + offset) mod int (length (genome st))"
    obtain q st1 where ins: "lg_insert_te ?p l st = (q, st1)" by force
    from lg_insert_te_keys [of ?p l st] ins
    have "fst ` set (active_TEs st1)
            \<subseteq> fst ` set (active_TEs st) \<union> allocated (Insert_te ?p l) (fst (ret_int (q, st1)))" by simp
    then show ?thesis using Some r False ins
      by (cases q) (auto simp: lg_copy_te_def ret_int_def ret_opt_def)
  qed
qed

lemma lg_call_keys:
  "fst ` set (active_TEs (snd (lg_call c st)))
     \<subseteq> fst ` set (active_TEs st) \<union> allocated c (fst (lg_call c st))"
proof (cases c)
  case (Insert_te p len)
  then show ?thesis using lg_insert_te_keys [of p len st] by simp
next
  case (Copy_te te offset)
  then show ?thesis using lg_copy_te_keys [of te offset st] by simp
next
  case (Disable_te te)
  then show ?thesis using lg_disable_te_keys [of te st] by auto
qed simp_all

lemma lg_history_keys: "lg_history st A \<Longrightarrow> fst ` set (active_TEs st) \<subseteq> A"
proof (induction rule: lg_history.induct)
  case (lg_hist_init n)
  then show ?case by (simp add: lg_init_def)
next
  case (lg_hist_call st A c)
  with lg_call_keys [of c st] show ?case by blast
qed

lemma ids_Suc: "{1..int (Suc m)} = insert (int m + 1) {1..int m}"
  by auto

lemma llg_insert_te_alloc:
  "{1..int (length (tes (snd (llg_insert_te p len st))))}
     = {1..int (length (tes st))} \<union> allocated (Insert_te p len) (fst (ret_int (llg_insert_te p len st)))"
proof (cases "llg_collision_step p st")
  case (Pair r st1)
  have m: "length (tes st1) = length (tes st)" using llg_collision_step_lengths [OF Pair] by simp
  show ?thesis
  proof (cases r)
    case (Inl e)
    with Pair m show ?thesis by (simp add: llg_insert_te_split ret_int_def)
  next
    case (Inr u)
    have "length (tes (llg_splice p len st1)) = Suc (length (tes st))"
      using m by (simp add: llg_splice_def)
    with Pair Inr m show ?thesis
      by (simp add: llg_insert_te_split ret_int_def ids_Suc del: of_nat_Suc)
  qed
qed

lemma llg_copy_te_alloc:
  "{1..int (length (tes (snd (llg_copy_te te offset st))))}
     = {1..int (length (tes st))} \<union> allocated (Copy_te te offset) (fst (ret_opt (llg_copy_te te offset st)))"
proof (cases "py_getitem (tes st) (te - 1)")
  case (Inl e)
  then show ?thesis by (simp add: llg_copy_te_def ret_opt_def)
next
  case (Inr t)
  show ?thesis
  proof (cases "te_status t = active \<and> length (ll_genome st) \<noteq> 0")
    case False
    with Inr show ?thesis by (auto simp: llg_copy_te_def ret_opt_def)
  next
    case True
    let ?p = "(offset + te_pos t) mod int (length (ll_genome st))"
    obtain q st1 where ins: "llg_insert_te ?p (te_length t) st = (q, st1)" by force
    from llg_insert_te_alloc [of ?p "te_length t" st] ins
    have "{1..int (length (tes st1))}
            = {1..int (length (tes st))} \<union> allocated (Insert_te ?p (te_length t)) (fst (ret_int (q, st1)))"
      by simp
    then show ?thesis using Inr True ins
      by (cases q) (simp_all add: llg_copy_te_def ret_int_def ret_opt_def)
  qed
qed

lemma llg_disable_te_tes_length:
  "length (tes (snd (llg_disable_te te st))) = length (tes st)"
  by (simp add: llg_disable_te_def Let_def split: option.splits prod.splits sum.splits)

lemma llg_call_alloc:
  "{1..int (length (tes (snd (llg_call c st))))}
     = {1..int (length (tes st))} \<union> allocated c (fst (llg_call c st))"
proof (cases c)
  case (Insert_te p len)
  then show ?thesis using llg_insert_te_alloc [of p len st] by simp
next
  case (Copy_te te offset)
  then show ?thesis using llg_copy_te_alloc [of te offset st] by simp
next
  case (Disable_te te)
  then show ?thesis by (simp add: llg_disable_te_tes_length)
qed simp_all

lemma llg_history_ids: "llg_history st A \<Longrightarrow> A = {1..int (length (tes st))}"
proof (induction rule: llg_history.induct)
  case (llg_hist_init n)
  then show ?case by (simp add: llg_init_def)
next
  case (llg_hist_call st A c)
  with llg_call_alloc [of c st] show ?case by simp
qed

lemma py_norm_low: "i < - int n \<Longrightarrow> py_norm n i = None"
  by (simp add: py_norm_def)

text \<open>
  C3, amended. A position at or beyond the length (for LinkedListGenome also a negative
  one, for ListGenome one below minus the length) makes \<^verbatim>\<open>insert_te\<close> raise IndexError;
  LinkedListGenome is then unchanged, ListGenome keeps its genome and both record tables.
  \<^verbatim>\<open>copy_te\<close> and \<^verbatim>\<open>disable_te\<close> of ListGenome raise KeyError and leave the state unchanged
  for every id without a record in \<^verbatim>\<open>active_TEs\<close>, in any state: so for every id that no
  call has returned, after any sequence of calls, valid or rejected. Those of
  LinkedListGenome raise IndexError and leave the state unchanged for every id above the
  number \<open>m\<close> of TEs and for every id at or below \<open>-m\<close>: so for every id that no call has
  returned, except the ids in \<open>(-m, 0]\<close>.
\<close>

theorem rejected_calls_keep_state:
  "(\<not> (- lg_len st \<le> p \<and> p < lg_len st) \<longrightarrow>
      fst (lg_insert_te p len st) = Inl IndexError
      \<and> genome (snd (lg_insert_te p len st)) = genome st
      \<and> active_TEs (snd (lg_insert_te p len st)) = active_TEs st
      \<and> inactive_TEs (snd (lg_insert_te p len st)) = inactive_TEs st)
   \<and> (te \<notin> fst ` set (active_TEs st) \<longrightarrow>
      lg_copy_te te offset st = (Inl KeyError, st) \<and> lg_disable_te te st = (Inl KeyError, st))
   \<and> (lg_history st A \<and> te \<notin> A \<longrightarrow>
      lg_copy_te te offset st = (Inl KeyError, st) \<and> lg_disable_te te st = (Inl KeyError, st))
   \<and> (lg_reachable st \<and> (te < 1 \<or> number_of_TEs st < te) \<longrightarrow>
      lg_copy_te te offset st = (Inl KeyError, st) \<and> lg_disable_te te st = (Inl KeyError, st))
   \<and> (\<not> (0 \<le> p \<and> p < llg_len st') \<longrightarrow> llg_insert_te p len st' = (Inl IndexError, st'))
   \<and> (int (length (tes st')) < te \<or> te \<le> - int (length (tes st')) \<longrightarrow>
      llg_copy_te te offset st' = (Inl IndexError, st') \<and> llg_disable_te te st' = (Inl IndexError, st'))
   \<and> (llg_history st' A' \<and> te \<notin> A' \<and> \<not> (- int (length (tes st')) < te \<and> te \<le> 0) \<longrightarrow>
      llg_copy_te te offset st' = (Inl IndexError, st') \<and> llg_disable_te te st' = (Inl IndexError, st'))"
proof -
  have absent: "lg_copy_te te offset st = (Inl KeyError, st) \<and> lg_disable_te te st = (Inl KeyError, st)"
    if "te \<notin> fst ` set (active_TEs st)"
  proof -
    have none: "map_of (active_TEs st) te = None" using that by (simp add: map_of_eq_None_iff)
    show ?thesis using lg_copy_te_not_active [OF none] lg_disable_te_not_active [OF none] by simp
  qed
  have outside: "llg_copy_te te offset st' = (Inl IndexError, st')
               \<and> llg_disable_te te st' = (Inl IndexError, st')"
    if "int (length (tes st')) < te \<or> te \<le> - int (length (tes st'))"
  proof -
    have n: "py_norm (length (tes st')) (te - 1) = None"
      using that by (auto simp: py_norm_high py_norm_low)
    show ?thesis using n by (simp add: llg_copy_te_def py_getitem_def llg_disable_te_def)
  qed
  show ?thesis
  proof (intro conjI impI)
    assume "\<not> (- lg_len st \<le> p \<and> p < lg_len st)"
    then have "py_getitem (genome st) p = Inl IndexError"
      unfolding lg_len_def by (rule py_getitem_outside)
    then have *: "lg_insert_te p len st = (Inl IndexError, st\<lparr>number_of_TEs := number_of_TEs st + 1\<rparr>)"
      by (simp add: lg_insert_te_def Let_def)
    show "fst (lg_insert_te p len st) = Inl IndexError"
      "genome (snd (lg_insert_te p len st)) = genome st"
      "active_TEs (snd (lg_insert_te p len st)) = active_TEs st"
      "inactive_TEs (snd (lg_insert_te p len st)) = inactive_TEs st"
      by (simp_all add: *)
  next
    assume "te \<notin> fst ` set (active_TEs st)"
    from absent [OF this] show "lg_copy_te te offset st = (Inl KeyError, st)"
      "lg_disable_te te st = (Inl KeyError, st)" by simp_all
  next
    assume "lg_history st A \<and> te \<notin> A"
    then have "te \<notin> fst ` set (active_TEs st)" using lg_history_keys by blast
    from absent [OF this] show "lg_copy_te te offset st = (Inl KeyError, st)"
      "lg_disable_te te st = (Inl KeyError, st)" by simp_all
  next
    assume "lg_reachable st \<and> (te < 1 \<or> number_of_TEs st < te)"
    then have none: "map_of (active_TEs st) te = None" using lg_reachable_unallocated by blast
    then show "lg_copy_te te offset st = (Inl KeyError, st)" by (rule lg_copy_te_not_active)
    from none show "lg_disable_te te st = (Inl KeyError, st)" by (rule lg_disable_te_not_active)
  next
    assume "\<not> (0 \<le> p \<and> p < llg_len st')"
    then have "llg_collision_step p st' = (Inl IndexError, st')"
      unfolding llg_len_def by (rule llg_collision_step_outside)
    then show "llg_insert_te p len st' = (Inl IndexError, st')" by (simp add: llg_insert_te_split)
  next
    assume "int (length (tes st')) < te \<or> te \<le> - int (length (tes st'))"
    from outside [OF this] show "llg_copy_te te offset st' = (Inl IndexError, st')"
      "llg_disable_te te st' = (Inl IndexError, st')" by simp_all
  next
    assume a: "llg_history st' A' \<and> te \<notin> A' \<and> \<not> (- int (length (tes st')) < te \<and> te \<le> 0)"
    then have "A' = {1..int (length (tes st'))}" using llg_history_ids by blast
    with a have "int (length (tes st')) < te \<or> te \<le> - int (length (tes st'))" by auto
    from outside [OF this] show "llg_copy_te te offset st' = (Inl IndexError, st')"
      "llg_disable_te te st' = (Inl IndexError, st')" by simp_all
  qed
qed

lemma lg_rejected_example_history: "lg_history lg_rejected_example {}"
proof -
  have e: "fst (lg_call (Insert_te 5 1) (lg_init 2)) = Inl IndexError" by code_simp
  from lg_hist_call [OF lg_hist_init, of "Insert_te 5 1" 2]
  have "lg_history lg_rejected_example ({} \<union> allocated (Insert_te 5 1) (Inl IndexError))"
    unfolding e lg_rejected_example_def .
  then show ?thesis by simp
qed

lemma llg_example_history: "llg_history llg_example {1}"
proof -
  have e: "fst (llg_call (Insert_te 1 1) (llg_init 2)) = Inr (RInt 1)" by code_simp
  from llg_hist_call [OF llg_hist_init, of "Insert_te 1 1" 2]
  have "llg_history llg_example ({} \<union> allocated (Insert_te 1 1) (Inr (RInt 1)))"
    unfolding e llg_example_eq .
  then show ?thesis by simp
qed

theorem rejected_calls_keep_state_witness:
  "\<not> (- lg_len lg_example \<le> 3 \<and> 3 < lg_len lg_example)
   \<and> fst (lg_insert_te 3 1 lg_example) = Inl IndexError
   \<and> genome (snd (lg_insert_te 3 1 lg_example)) = genome lg_example
   \<and> 2 \<notin> fst ` set (active_TEs lg_example)
   \<and> lg_copy_te 2 0 lg_example = (Inl KeyError, lg_example)
   \<and> lg_disable_te 2 lg_example = (Inl KeyError, lg_example)
   \<and> lg_history lg_rejected_example {} \<and> number_of_TEs lg_rejected_example = 1
   \<and> lg_copy_te 1 0 lg_rejected_example = (Inl KeyError, lg_rejected_example)
   \<and> lg_disable_te 1 lg_rejected_example = (Inl KeyError, lg_rejected_example)
   \<and> lg_reachable lg_example \<and> number_of_TEs lg_example < 2
   \<and> \<not> (0 \<le> (- 1 :: int) \<and> - 1 < llg_len llg_example)
   \<and> llg_insert_te (- 1) 1 llg_example = (Inl IndexError, llg_example)
   \<and> int (length (tes llg_example)) < 2
   \<and> llg_copy_te 2 0 llg_example = (Inl IndexError, llg_example)
   \<and> llg_disable_te 2 llg_example = (Inl IndexError, llg_example)
   \<and> (- 1 :: int) \<le> - int (length (tes llg_example))
   \<and> llg_copy_te (- 1) 0 llg_example = (Inl IndexError, llg_example)
   \<and> llg_disable_te (- 1) llg_example = (Inl IndexError, llg_example)
   \<and> llg_history llg_example {1}
   \<and> llg_copy_te 5 0 llg_example = (Inl IndexError, llg_example)"
proof -
  have a: "\<not> (- lg_len lg_example \<le> 3 \<and> 3 < lg_len lg_example)"
    by (simp add: lg_len_def lg_example_def)
  have k: "2 \<notin> fst ` set (active_TEs lg_example)" by (simp add: lg_example_def)
  have h: "lg_history lg_rejected_example {}" by (rule lg_rejected_example_history)
  have hn: "number_of_TEs lg_rejected_example = 1" by code_simp
  have b1: "lg_reachable lg_example" by (rule lg_example_reachable)
  have b2: "number_of_TEs lg_example < 2" by (simp add: lg_example_def)
  have c: "\<not> (0 \<le> (- 1 :: int) \<and> - 1 < llg_len llg_example)" by simp
  have d: "int (length (tes llg_example)) < 2" by (simp add: llg_example_def)
  have e: "(- 1 :: int) \<le> - int (length (tes llg_example))" by (simp add: llg_example_def)
  have h': "llg_history llg_example {1}" by (rule llg_example_history)
  have f: "(5::int) \<notin> {1} \<and> \<not> (- int (length (tes llg_example)) < 5 \<and> (5::int) \<le> 0)" by simp
  from rejected_calls_keep_state [of lg_example 3 1 2 0 "{}" llg_example "{}"] a k d
  have 1: "fst (lg_insert_te 3 1 lg_example) = Inl IndexError"
    "genome (snd (lg_insert_te 3 1 lg_example)) = genome lg_example"
    "lg_copy_te 2 0 lg_example = (Inl KeyError, lg_example)"
    "lg_disable_te 2 lg_example = (Inl KeyError, lg_example)"
    "llg_copy_te 2 0 llg_example = (Inl IndexError, llg_example)"
    "llg_disable_te 2 llg_example = (Inl IndexError, llg_example)"
    by blast+
  from rejected_calls_keep_state [of lg_rejected_example 0 1 1 0 "{}" llg_example "{}"] h
  have 2: "lg_copy_te 1 0 lg_rejected_example = (Inl KeyError, lg_rejected_example)"
    "lg_disable_te 1 lg_rejected_example = (Inl KeyError, lg_rejected_example)"
    by blast+
  from rejected_calls_keep_state [of lg_example "- 1" 1 "- 1" 0 "{}" llg_example "{}"] c e
  have 3: "llg_insert_te (- 1) 1 llg_example = (Inl IndexError, llg_example)"
    "llg_copy_te (- 1) 0 llg_example = (Inl IndexError, llg_example)"
    "llg_disable_te (- 1) llg_example = (Inl IndexError, llg_example)"
    by blast+
  from rejected_calls_keep_state [of lg_example 0 1 5 0 "{}" llg_example "{1}"] h' f
  have 4: "llg_copy_te 5 0 llg_example = (Inl IndexError, llg_example)"
    by blast
  show ?thesis by (intro conjI; fact)
qed

section \<open>The id 0 in LinkedListGenome (C10)\<close>

lemma llg_copy_te_active_effect:
  assumes inv: "llg_inv st" and k: "py_norm (length (tes st)) (te - 1) = Some k"
    and act: "te_status (tes st ! k) = active"
  shows "fst (llg_copy_te te offset st) = Inr (Some (int (length (tes st)) + 1))"
    and "last (tes (snd (llg_copy_te te offset st)))
           = \<lparr>te_id = int (length (tes st)) + 1,
               te_pos = (te_pos (tes st ! k) + offset) mod int (length (ll_genome st)),
               te_length = te_length (tes st ! k), te_status = active\<rparr>"
    and "int (length (ll_genome (snd (llg_copy_te te offset st))))
           = int (length (ll_genome st)) + te_length (tes st ! k)"
    and "\<forall>i. nat ((te_pos (tes st ! k) + offset) mod int (length (ll_genome st))) \<le> i
             \<and> i < nat ((te_pos (tes st ! k) + offset) mod int (length (ll_genome st)))
                     + nat (te_length (tes st ! k))
           \<longrightarrow> ll_genome (snd (llg_copy_te te offset st)) ! i
                 = \<lparr>symbol = CHR ''A'', nid = Some (int (length (tes st)) + 1)\<rparr>"
proof -
  let ?t = "tes st ! k"
  have klt: "k < length (tes st)" using k by (rule py_norm_Some)
  then have ok: "te_ok (length (ll_genome st)) ?t"
    using inv by (simp add: llg_inv_def list_all_length)
  have get: "py_getitem (tes st) (te - 1) = Inr ?t" using k by (simp add: py_getitem_def)
  have n: "0 < length (ll_genome st)" using llg_inv_nonempty [OF inv] klt by force
  let ?p = "(te_pos ?t + offset) mod int (length (ll_genome st))"
  have rng: "0 \<le> ?p" "?p < int (length (ll_genome st))" using n by simp_all
  have len: "1 \<le> te_length ?t" using ok by (simp add: te_ok_def)
  from llg_insert_te_succeeds [OF inv rng len] obtain st1 where
    ins: "llg_insert_te ?p (te_length ?t) st
            = (Inr (int (length (tes st)) + 1), llg_splice ?p (te_length ?t) st1)"
    and st1: "llg_collision_step ?p st = (Inr (), st1)" by blast
  have m: "length (tes st1) = length (tes st)" and l1: "length (ll_genome st1) = length (ll_genome st)"
    using llg_collision_step_lengths [OF st1] by simp_all
  have cp: "llg_copy_te te offset st
      = (Inr (Some (int (length (tes st)) + 1)), llg_splice ?p (te_length ?t) st1)"
    using get act n ins by (simp add: llg_copy_te_def add.commute)
  show "fst (llg_copy_te te offset st) = Inr (Some (int (length (tes st)) + 1))" by (simp add: cp)
  show "last (tes (snd (llg_copy_te te offset st)))
           = \<lparr>te_id = int (length (tes st)) + 1, te_pos = ?p,
               te_length = te_length ?t, te_status = active\<rparr>"
    by (simp add: cp llg_splice_last m)
  have "int (length (ll_genome (snd (llg_insert_te ?p (te_length ?t) st))))
          = int (length (ll_genome st)) + te_length ?t"
    using inv rng len by (rule llg_insert_te_length_valid)
  then show "int (length (ll_genome (snd (llg_copy_te te offset st))))
           = int (length (ll_genome st)) + te_length ?t" by (simp add: cp ins)
  have P: "nat ?p \<le> length (ll_genome st1)" using rng l1 by linarith
  have g: "ll_genome (llg_splice ?p (te_length ?t) st1)
         = take (nat ?p) (ll_genome st1)
           @ replicate (nat (te_length ?t)) \<lparr>symbol = CHR ''A'', nid = Some (int (length (tes st)) + 1)\<rparr>
           @ drop (nat ?p) (ll_genome st1)"
    by (simp add: llg_splice_def m)
  show "\<forall>i. nat ?p \<le> i \<and> i < nat ?p + nat (te_length ?t)
           \<longrightarrow> ll_genome (snd (llg_copy_te te offset st)) ! i
                 = \<lparr>symbol = CHR ''A'', nid = Some (int (length (tes st)) + 1)\<rparr>"
    unfolding cp snd_conv g using P by (auto intro: nth_splice_new)
qed

lemma llg_disable_te_effect:
  assumes inv: "llg_inv st" and k: "py_norm (length (tes st)) (te - 1) = Some k"
  shows "length (tes (snd (llg_disable_te te st))) = length (tes st)"
    and "te_status (tes (snd (llg_disable_te te st)) ! k) = inactive"
    and "\<forall>i < length (ll_genome st). ll_genome (snd (llg_disable_te te st)) ! i =
           (if te_pos (tes st ! k) \<le> int i \<and> int i < te_pos (tes st ! k) + te_length (tes st ! k)
            then (ll_genome st ! i)\<lparr>symbol := CHR ''x''\<rparr> else ll_genome st ! i)"
proof -
  let ?t = "tes st ! k"
  let ?ns = "py_range (te_pos ?t) (te_pos ?t + te_length ?t)"
  have klt: "k < length (tes st)" using k by (rule py_norm_Some)
  then have ok: "te_ok (length (ll_genome st)) ?t"
    using inv by (simp add: llg_inv_def list_all_length)
  then have rng: "\<forall>n \<in> set ?ns. 0 \<le> n \<and> n < int (length (ll_genome st))"
    by (auto simp: set_py_range te_ok_def)
  from for_each_set_symbol [OF rng, of "CHR ''x''"] obtain g' where g':
    "for_each (set_symbol_at_index (CHR ''x'')) ?ns (ll_genome st) = (Inr (), g')"
    "\<forall>i < length (ll_genome st). g' ! i =
        (if int i \<in> set ?ns then (ll_genome st ! i)\<lparr>symbol := CHR ''x''\<rparr> else ll_genome st ! i)"
    by blast
  have first: "llg_disable_te te st
      = (Inr (), st\<lparr>ll_genome := g', tes := (tes st)[k := ?t\<lparr>te_status := inactive\<rparr>]\<rparr>)"
    using k g'(1) by (simp add: llg_disable_te_def Let_def)
  show "length (tes (snd (llg_disable_te te st))) = length (tes st)" by (simp add: first)
  show "te_status (tes (snd (llg_disable_te te st)) ! k) = inactive" using klt by (simp add: first)
  show "\<forall>i < length (ll_genome st). ll_genome (snd (llg_disable_te te st)) ! i =
           (if te_pos ?t \<le> int i \<and> int i < te_pos ?t + te_length ?t
            then (ll_genome st ! i)\<lparr>symbol := CHR ''x''\<rparr> else ll_genome st ! i)"
    using g'(2) by (simp add: first set_py_range)
qed

text \<open>
  C10. On a LinkedListGenome with at least one TE, the id 0 is not rejected: the lookup
  \<^verbatim>\<open>self.tes[0 - 1]\<close> yields the last element of \<^verbatim>\<open>tes\<close>, the TE created most
  recently (its id is the number of TEs), and \<^verbatim>\<open>disable_te(0)\<close> and \<^verbatim>\<open>copy_te(0, offset)\<close>
  return and leave the same state as the calls that name that TE by its id; neither raises.
  \<^verbatim>\<open>disable_te(0)\<close> marks that TE inactive and sets the symbol of every position of its
  range to x. \<^verbatim>\<open>copy_te(0, offset)\<close> copies it when it is active: the call returns the next
  id, the genome grows by the length of the latest TE, the new record has that length and
  starts at (start of the latest TE + offset) mod len, and the positions from there hold
  the A's of the new id; when the latest TE is inactive the call returns None and changes
  nothing.
\<close>

theorem llg_te_id_zero_is_latest:
  assumes "llg_reachable st" and "tes st \<noteq> []"
  shows "py_getitem (tes st) (0 - 1) = Inr (last (tes st))
       \<and> te_id (last (tes st)) = int (length (tes st))
       \<and> llg_disable_te 0 st = llg_disable_te (int (length (tes st))) st
       \<and> llg_copy_te 0 offset st = llg_copy_te (int (length (tes st))) offset st
       \<and> fst (llg_disable_te 0 st) = Inr ()
       \<and> (\<exists>v. fst (llg_copy_te 0 offset st) = Inr v)
       \<and> te_status (last (tes (snd (llg_disable_te 0 st)))) = inactive
       \<and> (\<forall>i < length (ll_genome st).
             te_pos (last (tes st)) \<le> int i \<and> int i < te_pos (last (tes st)) + te_length (last (tes st))
             \<longrightarrow> symbol (ll_genome (snd (llg_disable_te 0 st)) ! i) = CHR ''x'')
       \<and> (te_status (last (tes st)) = active \<longrightarrow>
             fst (llg_copy_te 0 offset st) = Inr (Some (int (length (tes st)) + 1))
           \<and> last (tes (snd (llg_copy_te 0 offset st)))
               = \<lparr>te_id = int (length (tes st)) + 1,
                   te_pos = (te_pos (last (tes st)) + offset) mod llg_len st,
                   te_length = te_length (last (tes st)), te_status = active\<rparr>
           \<and> llg_len (snd (llg_copy_te 0 offset st)) = llg_len st + te_length (last (tes st))
           \<and> (\<forall>i. nat ((te_pos (last (tes st)) + offset) mod llg_len st) \<le> i
                    \<and> i < nat ((te_pos (last (tes st)) + offset) mod llg_len st)
                            + nat (te_length (last (tes st)))
                 \<longrightarrow> ll_genome (snd (llg_copy_te 0 offset st)) ! i
                       = \<lparr>symbol = CHR ''A'', nid = Some (int (length (tes st)) + 1)\<rparr>))
       \<and> (te_status (last (tes st)) = inactive \<longrightarrow> llg_copy_te 0 offset st = (Inr None, st))"
proof -
  let ?m = "length (tes st)"
  have inv: "llg_inv st" using assms(1) by (rule llg_reachable_inv)
  have m: "0 < ?m" using assms(2) by simp
  have n0: "py_norm ?m (0 - 1) = Some (?m - 1)"
    using assms(2) by (cases "tes st") (auto simp: py_norm_def)
  have nm: "py_norm ?m (int ?m - 1) = Some (?m - 1)"
    using assms(2) by (cases "tes st") (auto simp: py_norm_def)
  have lst: "last (tes st) = tes st ! (?m - 1)" using assms(2) by (rule last_conv_nth)
  have get: "py_getitem (tes st) (0 - 1) = Inr (last (tes st))"
    using n0 lst by (simp add: py_getitem_def)
  have id: "te_id (last (tes st)) = int ?m"
  proof -
    have i: "?m - 1 < ?m" and e: "int (?m - 1) + 1 = int ?m" using m by linarith+
    have "map te_id (tes st) ! (?m - 1) = map (\<lambda>k. int k + 1) [0..<?m] ! (?m - 1)"
      using inv by (simp add: llg_inv_def)
    then have "te_id (tes st ! (?m - 1)) = int (?m - 1) + 1"
      using i by simp
    then show ?thesis using e by (simp add: lst)
  qed
  have dis_eq: "llg_disable_te 0 st = llg_disable_te (int ?m) st"
    using n0 nm by (simp add: llg_disable_te_def)
  have cp_eq: "llg_copy_te 0 offset st = llg_copy_te (int ?m) offset st"
    using n0 nm by (simp add: llg_copy_te_def py_getitem_def)
  have dis_ok: "fst (llg_disable_te 0 st) = Inr ()"
    using llg_disable_te_succeeds [OF inv, of 0] n0 by simp
  have cp_ok: "\<exists>v. fst (llg_copy_te 0 offset st) = Inr v"
    using llg_copy_te_succeeds [OF inv, of 0] n0 by simp
  note dis = llg_disable_te_effect [OF inv n0]
  have dis_status: "te_status (last (tes (snd (llg_disable_te 0 st)))) = inactive"
  proof -
    have "tes (snd (llg_disable_te 0 st)) \<noteq> []" using dis(1) assms(2) by (metis length_0_conv)
    then have "last (tes (snd (llg_disable_te 0 st))) = tes (snd (llg_disable_te 0 st)) ! (?m - 1)"
      using dis(1) by (simp add: last_conv_nth)
    then show ?thesis using dis(2) by simp
  qed
  have dis_sym: "\<forall>i < length (ll_genome st).
       te_pos (last (tes st)) \<le> int i \<and> int i < te_pos (last (tes st)) + te_length (last (tes st))
       \<longrightarrow> symbol (ll_genome (snd (llg_disable_te 0 st)) ! i) = CHR ''x''"
    using dis(3) by (simp add: lst)
  have cp_act: "fst (llg_copy_te 0 offset st) = Inr (Some (int ?m + 1))
           \<and> last (tes (snd (llg_copy_te 0 offset st)))
               = \<lparr>te_id = int ?m + 1,
                   te_pos = (te_pos (last (tes st)) + offset) mod llg_len st,
                   te_length = te_length (last (tes st)), te_status = active\<rparr>
           \<and> llg_len (snd (llg_copy_te 0 offset st)) = llg_len st + te_length (last (tes st))
           \<and> (\<forall>i. nat ((te_pos (last (tes st)) + offset) mod llg_len st) \<le> i
                    \<and> i < nat ((te_pos (last (tes st)) + offset) mod llg_len st)
                            + nat (te_length (last (tes st)))
                 \<longrightarrow> ll_genome (snd (llg_copy_te 0 offset st)) ! i
                       = \<lparr>symbol = CHR ''A'', nid = Some (int ?m + 1)\<rparr>)"
    if "te_status (last (tes st)) = active"
  proof -
    have act: "te_status (tes st ! (?m - 1)) = active" using that by (simp add: lst)
    note eff = llg_copy_te_active_effect [OF inv n0 act, of offset]
    show ?thesis unfolding llg_len_def lst using eff by blast
  qed
  have cp_inact: "llg_copy_te 0 offset st = (Inr None, st)" if "te_status (last (tes st)) = inactive"
    using get that by (rule llg_copy_te_inactive)
  from get id dis_eq cp_eq dis_ok cp_ok dis_status dis_sym cp_act cp_inact
  show ?thesis by (intro conjI impI) blast+
qed

lemma llg_example2_reachable: "llg_reachable llg_example2"
  unfolding llg_example2_def by (rule llg_reachable_run [OF llg_reach_init])

theorem llg_te_id_zero_is_latest_witness:
  "llg_reachable llg_example2 \<and> tes llg_example2 \<noteq> []
   \<and> length (tes llg_example2) = 2 \<and> llg_len llg_example2 = 5
   \<and> te_pos (hd (tes llg_example2)) = 0
   \<and> te_pos (last (tes llg_example2)) = 2 \<and> te_length (last (tes llg_example2)) = 1
   \<and> te_status (last (tes llg_example2)) = active
   \<and> fst (llg_copy_te 0 1 llg_example2) = Inr (Some 3)
   \<and> last (tes (snd (llg_copy_te 0 1 llg_example2)))
        = \<lparr>te_id = 3, te_pos = 3, te_length = 1, te_status = active\<rparr>
   \<and> llg_len (snd (llg_copy_te 0 1 llg_example2)) = 6
   \<and> fst (llg_disable_te 0 llg_example2) = Inr ()
   \<and> te_status (last (tes (snd (llg_disable_te 0 llg_example2)))) = inactive
   \<and> symbol (ll_genome (snd (llg_disable_te 0 llg_example2)) ! 2) = CHR ''x''"
proof -
  have r: "llg_reachable llg_example2" by (rule llg_example2_reachable)
  have t: "tes llg_example2 \<noteq> []" by code_simp
  have e: "length (tes llg_example2) = 2" "llg_len llg_example2 = 5"
    "te_pos (hd (tes llg_example2)) = 0"
    "te_pos (last (tes llg_example2)) = 2" "te_length (last (tes llg_example2)) = 1"
    "te_status (last (tes llg_example2)) = active" "length (ll_genome llg_example2) = 5"
    by code_simp+
  note inst = llg_te_id_zero_is_latest [OF r t, of 1, unfolded e]
  from inst e(6) have c: "fst (llg_copy_te 0 1 llg_example2) = Inr (Some (int 2 + 1))"
    "last (tes (snd (llg_copy_te 0 1 llg_example2)))
        = \<lparr>te_id = int 2 + 1, te_pos = (2 + 1) mod 5, te_length = 1, te_status = active\<rparr>"
    "llg_len (snd (llg_copy_te 0 1 llg_example2)) = 5 + 1"
    by blast+
  from inst have d: "fst (llg_disable_te 0 llg_example2) = Inr ()"
    "te_status (last (tes (snd (llg_disable_te 0 llg_example2)))) = inactive"
    by blast+
  from inst have "\<forall>i < 5. 2 \<le> int i \<and> int i < 2 + 1
             \<longrightarrow> symbol (ll_genome (snd (llg_disable_te 0 llg_example2)) ! i) = CHR ''x''"
    by blast
  then have x: "symbol (ll_genome (snd (llg_disable_te 0 llg_example2)) ! 2) = CHR ''x''"
    by simp
  have c': "fst (llg_copy_te 0 1 llg_example2) = Inr (Some 3)"
    "last (tes (snd (llg_copy_te 0 1 llg_example2)))
        = \<lparr>te_id = 3, te_pos = 3, te_length = 1, te_status = active\<rparr>"
    "llg_len (snd (llg_copy_te 0 1 llg_example2)) = 6"
    using c by simp_all
  show ?thesis using r t e(1-6) c' d x by (intro conjI)
qed

end
